theory Spec2Isabelle
  imports Main "HOL-Library.Word"
begin

unbundle bit_operations_syntax

section \<open>Data model of go-tupleconv\<close>

text \<open>
  A Go string is a sequence of bytes and is modelled as a \<open>string\<close>, the list of its
  bytes: a \<open>char\<close> stands for one byte. Where the source ranges over the characters of
  a configuration string (\<open>replaceCharacters\<close>) the bytes are decoded as UTF-8 into
  runes (\<open>nat\<close>), as the language does.
  \<open>int64\<close> and \<open>uint64\<close> are \<open>64 word\<close>; Go's \<open>int\<close> is taken to be 64 bits
  wide, as on amd64 and arm64.
\<close>

type_synonym int64 = "64 word"
type_synonym uint64 = "64 word"

text \<open>Values of the external packages that this development never inspects.\<close>

typedecl float64
typedecl Decimal
typedecl UUID
typedecl Datetime
typedecl Time
typedecl Location

text \<open>
  \<open>datetime.Interval\<close> of go-tarantool: eight \<open>int64\<close> fields and the adjust mode,
  \<open>type Adjust int\<close> with the constants \<open>NoneAdjust = 0\<close>, \<open>ExcessAdjust = 1\<close>
  and \<open>LastAdjust = 2\<close>.
\<close>

record Interval =
  Year :: int64
  Month :: int64
  Week :: int64
  Day :: int64
  Hour :: int64
  Min :: int64
  Sec :: int64
  Nsec :: int64
  Adjust :: int64

definition NoneAdjust :: int64 where "NoneAdjust = 0"
definition ExcessAdjust :: int64 where "ExcessAdjust = 1"
definition LastAdjust :: int64 where "LastAdjust = 2"

text \<open>
  Go's \<open>any\<close>, restricted to the dynamic types the converters and the converters of
  the tests produce (\<open>IntV\<close> is an \<open>int\<close>). A decoded
  JSON document is built from \<open>NilV\<close> (\<open>nil\<close>), \<open>BoolV\<close>, \<open>Float64V\<close>,
  \<open>StringV\<close>, \<open>SliceV\<close> (\<open>[]any\<close>) and \<open>MapV\<close> (\<open>map[string]any\<close>, as an
  association list with distinct keys).
\<close>

datatype any =
    NilV
  | BoolV bool
  | IntV int64
  | Uint64V uint64
  | Int64V int64
  | Float64V float64
  | StringV string
  | BytesV string
  | SliceV "any list"
  | MapV "(string \<times> any) list"
  | DecimalV Decimal
  | UUIDV UUID
  | DatetimeV Datetime
  | IntervalV Interval

text \<open>
  Errors are values. \<open>NumError f s e\<close> is \<open>*strconv.NumError\<close> with its \<open>Func\<close>,
  \<open>Num\<close> and \<open>Err\<close>; the \<open>fmt.Errorf\<close> errors keep the operands of their format
  string; \<open>LibError\<close> is an error of an external package.
\<close>

datatype strconv_err = ErrSyntax | ErrRange

datatype 's error =
    NumError string string strconv_err
  | SeqUnexpectedValue 's
  | NullUnexpectedValue string
  | ErrUnexpectedIntervalFmt
  | UnexpectedType string
  | UnexpectedValueForType 's string
  | TupleLengthError
  | NilDereference
  | JsonSyntaxError
  | LibError string

text \<open>\<open>Converter[S, T]\<close>: the method \<open>Convert(src S) (T, error)\<close>.\<close>

type_synonym ('s, 't) Converter = "'s \<Rightarrow> 's error + 't"

section \<open>The Go standard library functions the converters call\<close>

subsection \<open>strconv\<close>

text \<open>
  \<open>strconv.ParseUint(s, 10, 64)\<close>. The loop reads the bytes from the left; a byte is a
  digit, a letter (whose value is at least 10, so it is rejected in base 10) or a syntax
  error; the two overflow checks come before the next byte is read. \<open>lower(c)\<close> is
  \<open>c | ('x' - 'X')\<close>.
\<close>

definition lower :: "nat \<Rightarrow> nat" where
  "lower c = c OR 32"

definition digit_value :: "char \<Rightarrow> nat option" where
  "digit_value ch =
     (let c = of_char ch :: nat in
      if 48 \<le> c \<and> c \<le> 57 then Some (c - 48)
      else if 97 \<le> lower c \<and> lower c \<le> 122 then Some (lower c - 97 + 10)
      else None)"

definition maxUint64 :: uint64 where
  "maxUint64 = 18446744073709551615"

fun ParseUint_loop :: "uint64 \<Rightarrow> string \<Rightarrow> strconv_err + uint64" where
  "ParseUint_loop n [] = Inr n"
| "ParseUint_loop n (c # cs) =
     (case digit_value c of
        None \<Rightarrow> Inl ErrSyntax
      | Some d \<Rightarrow>
          if d \<ge> 10 then Inl ErrSyntax
          else if n \<ge> maxUint64 div 10 + 1 then Inl ErrRange
          else (let n' = n * 10; n1 = n' + of_nat d in
                if n1 < n' \<or> n1 > maxUint64 then Inl ErrRange
                else ParseUint_loop n1 cs))"

definition ParseUint_base10 :: "string \<Rightarrow> strconv_err + uint64" where
  "ParseUint_base10 s = (if s = [] then Inl ErrSyntax else ParseUint_loop 0 s)"

definition strconv_ParseUint :: "string \<Rightarrow> 's error + uint64" where
  "strconv_ParseUint s =
     (case ParseUint_base10 s of
        Inl e \<Rightarrow> Inl (NumError ''ParseUint'' s e)
      | Inr n \<Rightarrow> Inr n)"

text \<open>
  \<open>strconv.ParseInt(s, 10, 64)\<close>: the sign is picked off, the rest goes through
  \<open>ParseUint\<close>, whose range error leaves \<open>un\<close> at the maximum, and the magnitude is
  checked against \<open>1 << 63\<close>.
\<close>

definition strconv_ParseInt :: "string \<Rightarrow> 's error + int64" where
  "strconv_ParseInt s0 =
     (if s0 = [] then Inl (NumError ''ParseInt'' s0 ErrSyntax)
      else
        let neg = (hd s0 = CHR ''-'');
            s = (if hd s0 = CHR ''+'' \<or> hd s0 = CHR ''-'' then tl s0 else s0)
        in case ParseUint_base10 s of
             Inl ErrSyntax \<Rightarrow> Inl (NumError ''ParseInt'' s0 ErrSyntax)
           | r \<Rightarrow>
               (let un = (case r of Inr n \<Rightarrow> n | Inl e \<Rightarrow> maxUint64);
                    cutoff = (9223372036854775808 :: uint64)
                in if \<not> neg \<and> un \<ge> cutoff then Inl (NumError ''ParseInt'' s0 ErrRange)
                   else if neg \<and> un > cutoff then Inl (NumError ''ParseInt'' s0 ErrRange)
                   else Inr (if neg then - un else un)))"

text \<open>\<open>strconv.ParseBool\<close>.\<close>

definition strconv_ParseBool :: "string \<Rightarrow> 's error + bool" where
  "strconv_ParseBool str =
     (if str \<in> set [''1'', ''t'', ''T'', ''TRUE'', ''true'', ''True''] then Inr True
      else if str \<in> set [''0'', ''f'', ''F'', ''FALSE'', ''false'', ''False''] then Inr False
      else Inl (NumError ''ParseBool'' str ErrSyntax))"

subsection \<open>fmt\<close>

text \<open>
  The verb \<open>%d\<close> on a signed 64-bit integer (\<open>fmtInteger\<close>): the magnitude is taken in
  \<open>uint64\<close>, its decimal digits are produced from the right, and a minus sign is put in
  front of a negative number.
\<close>

fun fmt_dec :: "nat \<Rightarrow> string" where
  "fmt_dec u =
     (if u \<ge> 10 then fmt_dec (u div 10) @ [char_of (48 + u mod 10)]
      else [char_of (48 + u)])"

definition fmt_d :: "int64 \<Rightarrow> string" where
  "fmt_d v =
     (let negative = (sint v < 0);
          u = (if negative then - v else v)
      in (if negative then ''-'' else []) @ fmt_dec (unat u))"

subsection \<open>Strings as UTF-8\<close>

text \<open>
  A \<open>for ... range\<close> loop over a string decodes one rune per iteration: a byte below
  \<open>0x80\<close> is the rune itself, anything else goes through \<open>decoderune\<close> of the runtime,
  which returns the rune and the number of bytes it took, and \<open>runeError\<close> with one byte
  on an encoding that is not valid UTF-8. The conversion \<open>string(char)\<close> of a rune is
  \<open>encoderune\<close>.
\<close>

definition runeError :: nat where "runeError = 0xFFFD"
definition maxRune :: nat where "maxRune = 0x10FFFF"
definition surrogateMin :: nat where "surrogateMin = 0xD800"
definition surrogateMax :: nat where "surrogateMax = 0xDFFF"
definition rune1Max :: nat where "rune1Max = 0x7F"
definition rune2Max :: nat where "rune2Max = 0x7FF"
definition rune3Max :: nat where "rune3Max = 0xFFFF"

text \<open>A continuation byte: \<open>locb <= b && b <= hicb\<close>.\<close>

definition continuation :: "char \<Rightarrow> bool" where
  "continuation c = (0x80 \<le> (of_char c :: nat) \<and> (of_char c :: nat) \<le> 0xBF)"

definition decoderune :: "string \<Rightarrow> nat \<times> nat" where
  "decoderune s =
     (if s = [] then (runeError, 1)
      else
        let b0 = (of_char (s ! 0) :: nat) in
        if 0xC0 \<le> b0 \<and> b0 < 0xE0 then
          (if length s > 1 \<and> continuation (s ! 1) then
             (let r = (b0 mod 32) * 64 + of_char (s ! 1) mod 64
              in if rune1Max < r then (r, 2) else (runeError, 1))
           else (runeError, 1))
        else if 0xE0 \<le> b0 \<and> b0 < 0xF0 then
          (if length s > 2 \<and> continuation (s ! 1) \<and> continuation (s ! 2) then
             (let r = (b0 mod 16) * 4096 + (of_char (s ! 1) mod 64) * 64 + of_char (s ! 2) mod 64
              in if rune2Max < r \<and> \<not> (surrogateMin \<le> r \<and> r \<le> surrogateMax) then (r, 3)
                 else (runeError, 1))
           else (runeError, 1))
        else if 0xF0 \<le> b0 \<and> b0 < 0xF8 then
          (if length s > 3 \<and> continuation (s ! 1) \<and> continuation (s ! 2) \<and>
              continuation (s ! 3) then
             (let r = (b0 mod 8) * 262144 + (of_char (s ! 1) mod 64) * 4096 +
                      (of_char (s ! 2) mod 64) * 64 + of_char (s ! 3) mod 64
              in if rune3Max < r \<and> r \<le> maxRune then (r, 4) else (runeError, 1))
           else (runeError, 1))
        else (runeError, 1))"

text \<open>The runes that \<open>for _, char := range s\<close> goes through.\<close>

fun range_string :: "string \<Rightarrow> nat list" where
  "range_string [] = []"
| "range_string (c # s) =
     (if (of_char c :: nat) < 0x80 then of_char c # range_string s
      else fst (decoderune (c # s)) # range_string (drop (snd (decoderune (c # s)) - 1) s))"

definition encoderune3 :: "nat \<Rightarrow> string" where
  "encoderune3 r =
     [char_of (0xE0 + r div 4096), char_of (0x80 + (r div 64) mod 64), char_of (0x80 + r mod 64)]"

definition encoderune :: "nat \<Rightarrow> string" where
  "encoderune r =
     (if r \<le> rune1Max then [char_of r]
      else if r \<le> rune2Max then [char_of (0xC0 + r div 64), char_of (0x80 + r mod 64)]
      else if r > maxRune \<or> (surrogateMin \<le> r \<and> r \<le> surrogateMax) then encoderune3 runeError
      else if r \<le> rune3Max then encoderune3 r
      else [char_of (0xF0 + r div 262144), char_of (0x80 + (r div 4096) mod 64),
            char_of (0x80 + (r div 64) mod 64), char_of (0x80 + r mod 64)])"

subsection \<open>strings\<close>

text \<open>
  \<open>strings.Split\<close> and \<open>strings.Cut\<close> for a separator of one byte, which is how the
  converters call them, and \<open>strings.ReplaceAll\<close>. \<open>replace_loop\<close> is the loop of
  \<open>strings.Replace\<close> for a pattern that is not empty: the occurrences are found from
  left to right and do not overlap. With an empty pattern \<open>strings.Replace\<close> puts
  \<open>new\<close> in front of every rune and at the end.
\<close>

fun strings_Split :: "string \<Rightarrow> char \<Rightarrow> string list" where
  "strings_Split [] sep = [[]]"
| "strings_Split (c # s) sep =
     (if c = sep then [] # strings_Split s sep
      else (case strings_Split s sep of
              [] \<Rightarrow> [[c]]
            | part # parts \<Rightarrow> (c # part) # parts))"

definition strings_Cut :: "string \<Rightarrow> char \<Rightarrow> string \<times> string \<times> bool" where
  "strings_Cut s sep =
     (if sep \<in> set s
      then (takeWhile (\<lambda>c. c \<noteq> sep) s, tl (dropWhile (\<lambda>c. c \<noteq> sep) s), True)
      else (s, [], False))"

fun replace_loop :: "string \<Rightarrow> string \<Rightarrow> string \<Rightarrow> string" where
  "replace_loop [] old new = []"
| "replace_loop (c # s) old new =
     (if old \<noteq> [] \<and> take (length old) (c # s) = old
      then new @ replace_loop (drop (length old - 1) s) old new
      else c # replace_loop s old new)"

fun rune_segments :: "string \<Rightarrow> string list" where
  "rune_segments [] = []"
| "rune_segments (c # s) =
     (if (of_char c :: nat) < 0x80 then [c] # rune_segments s
      else take (snd (decoderune (c # s))) (c # s) #
           rune_segments (drop (snd (decoderune (c # s)) - 1) s))"

definition strings_ReplaceAll :: "string \<Rightarrow> string \<Rightarrow> string \<Rightarrow> string" where
  "strings_ReplaceAll s old new =
     (if old = new then s
      else if old = [] then new @ concat (map (\<lambda>seg. seg @ new) (rune_segments s))
      else replace_loop s old new)"

subsection \<open>Parsers of other packages\<close>

text \<open>
  Floating point numbers, decimals, UUIDs and times are parsed by \<open>strconv.ParseFloat\<close>,
  go-tarantool's \<open>decimal\<close> and \<open>datetime\<close>, \<open>google/uuid\<close> and \<open>time\<close>. The
  converters only pass strings to them and hand their results on, so these functions are
  parameters of the model: any functions of these types may stand for them.
\<close>

record go_ext =
  strconv_ParseFloat :: "string \<Rightarrow> string error + float64"
  decimal_NewDecimalFromString :: "string \<Rightarrow> string error + Decimal"
  uuid_Parse :: "string \<Rightarrow> string error + UUID"
  time_Parse :: "string \<Rightarrow> string \<Rightarrow> string error + Time"
  time_ParseInLocation :: "string \<Rightarrow> string \<Rightarrow> Location \<Rightarrow> string error + Time"
  time_LoadLocation :: "string \<Rightarrow> string error + Location"
  time_FixedZone :: "string \<Rightarrow> int \<Rightarrow> Location"
  Time_Zone :: "Time \<Rightarrow> string \<times> int"
  Time_In :: "Time \<Rightarrow> Location \<Rightarrow> Time"
  datetime_NewDatetime :: "Time \<Rightarrow> string error + Datetime"

text \<open>\<open>datetime.NoTimezone\<close> of go-tarantool is the empty string.\<close>

definition NoTimezone :: string where
  "NoTimezone = []"

subsection \<open>encoding/json\<close>

text \<open>
  \<open>json.Unmarshal\<close> into an \<open>any\<close>, on the documents that consist of white space, the
  literals \<open>null\<close>, \<open>true\<close> and \<open>false\<close>, strings of printable ASCII characters
  without escapes, arrays and objects. The result is \<open>None\<close> on a document with a number
  (whose value is a \<open>float64\<close>), an escape sequence or a byte from 127 on: there the
  model says nothing. \<open>Some (Inl JsonSyntaxError)\<close> is the decoder's syntax error,
  \<open>Some (Inr v)\<close> the decoded value. Arrays and objects nest to a depth of 10000 at
  most; a key that occurs twice in an object keeps its last value.
\<close>

datatype 'a jres = JOk 'a string | JSyntax | JUnmodelled

definition is_space :: "char \<Rightarrow> bool" where
  "is_space c = (c = CHR '' '' \<or> c = CHR 0x09 \<or> c = CHR 0x0D \<or> c = CHR 0x0A)"

definition skip_space :: "string \<Rightarrow> string" where
  "skip_space s = dropWhile is_space s"

fun scan_string :: "string \<Rightarrow> string jres" where
  "scan_string [] = JSyntax"
| "scan_string (c # cs) =
     (if c = CHR 0x22 then JOk [] cs
      else if c = CHR 0x5C then JUnmodelled
      else if (of_char c :: nat) < 32 then JSyntax
      else if (of_char c :: nat) \<ge> 127 then JUnmodelled
      else (case scan_string cs of
              JOk str rest \<Rightarrow> JOk (c # str) rest
            | JSyntax \<Rightarrow> JSyntax
            | JUnmodelled \<Rightarrow> JUnmodelled))"

definition scan_literal :: "string \<Rightarrow> any \<Rightarrow> string \<Rightarrow> any jres" where
  "scan_literal lit v s =
     (if take (length lit) s = lit then JOk v (drop (length lit) s) else JSyntax)"

definition map_put :: "string \<Rightarrow> any \<Rightarrow> (string \<times> any) list \<Rightarrow> (string \<times> any) list" where
  "map_put k v m = filter (\<lambda>kv. fst kv \<noteq> k) m @ [(k, v)]"

definition maxNestingDepth :: nat where
  "maxNestingDepth = 10000"

fun scan_value :: "nat \<Rightarrow> nat \<Rightarrow> string \<Rightarrow> any jres"
  and scan_elements :: "nat \<Rightarrow> nat \<Rightarrow> any list \<Rightarrow> string \<Rightarrow> any jres"
  and scan_members :: "nat \<Rightarrow> nat \<Rightarrow> (string \<times> any) list \<Rightarrow> string \<Rightarrow> any jres" where
  "scan_value 0 depth s = JUnmodelled"
| "scan_value (Suc fuel) depth s =
     (case skip_space s of
        [] \<Rightarrow> JSyntax
      | c # cs \<Rightarrow>
          if c = CHR ''n'' then scan_literal ''null'' NilV (c # cs)
          else if c = CHR ''t'' then scan_literal ''true'' (BoolV True) (c # cs)
          else if c = CHR ''f'' then scan_literal ''false'' (BoolV False) (c # cs)
          else if c = CHR 0x22 then
            (case scan_string cs of
               JOk str rest \<Rightarrow> JOk (StringV str) rest
             | JSyntax \<Rightarrow> JSyntax
             | JUnmodelled \<Rightarrow> JUnmodelled)
          else if c = CHR ''['' then
            (if depth \<ge> maxNestingDepth then JSyntax
             else (case skip_space cs of
                     [] \<Rightarrow> JSyntax
                   | d # ds \<Rightarrow>
                       if d = CHR '']'' then JOk (SliceV []) ds
                       else scan_elements fuel (Suc depth) [] cs))
          else if c = CHR ''{'' then
            (if depth \<ge> maxNestingDepth then JSyntax
             else (case skip_space cs of
                     [] \<Rightarrow> JSyntax
                   | d # ds \<Rightarrow>
                       if d = CHR ''}'' then JOk (MapV []) ds
                       else scan_members fuel (Suc depth) [] cs))
          else if c = CHR ''-'' \<or> (48 \<le> (of_char c :: nat) \<and> (of_char c :: nat) \<le> 57) then JUnmodelled
          else JSyntax)"
| "scan_elements 0 depth acc s = JUnmodelled"
| "scan_elements (Suc fuel) depth acc s =
     (case scan_value fuel depth s of
        JOk v rest \<Rightarrow>
          (case skip_space rest of
             [] \<Rightarrow> JSyntax
           | c # cs \<Rightarrow>
               if c = CHR '','' then scan_elements fuel depth (acc @ [v]) cs
               else if c = CHR '']'' then JOk (SliceV (acc @ [v])) cs
               else JSyntax)
      | JSyntax \<Rightarrow> JSyntax
      | JUnmodelled \<Rightarrow> JUnmodelled)"
| "scan_members 0 depth acc s = JUnmodelled"
| "scan_members (Suc fuel) depth acc s =
     (case skip_space s of
        [] \<Rightarrow> JSyntax
      | q # s1 \<Rightarrow>
          if q \<noteq> CHR 0x22 then JSyntax
          else (case scan_string s1 of
                  JOk key s2 \<Rightarrow>
                    (case skip_space s2 of
                       [] \<Rightarrow> JSyntax
                     | colon # s3 \<Rightarrow>
                         if colon \<noteq> CHR '':'' then JSyntax
                         else (case scan_value fuel depth s3 of
                                 JOk v rest \<Rightarrow>
                                   (case skip_space rest of
                                      [] \<Rightarrow> JSyntax
                                    | c # cs \<Rightarrow>
                                        if c = CHR '','' then
                                          scan_members fuel depth (map_put key v acc) cs
                                        else if c = CHR ''}'' then
                                          JOk (MapV (map_put key v acc)) cs
                                        else JSyntax)
                               | JSyntax \<Rightarrow> JSyntax
                               | JUnmodelled \<Rightarrow> JUnmodelled))
                | JSyntax \<Rightarrow> JSyntax
                | JUnmodelled \<Rightarrow> JUnmodelled))"

definition json_Unmarshal :: "string \<Rightarrow> (string error + any) option" where
  "json_Unmarshal data =
     (case scan_value (Suc (length data)) 0 data of
        JOk v rest \<Rightarrow>
          if skip_space rest = [] then Some (Inr v) else Some (Inl JsonSyntaxError)
      | JSyntax \<Rightarrow> Some (Inl JsonSyntaxError)
      | JUnmodelled \<Rightarrow> None)"

section \<open>converter.go\<close>

definition IdentityConverter_Convert :: "(string, any) Converter" where
  "IdentityConverter_Convert src = Inr (StringV src)"

text \<open>\<open>MakeSequenceConverter\<close>: the first converter that returns no error wins.\<close>

fun MakeSequenceConverter :: "('s, 't) Converter list \<Rightarrow> ('s, 't) Converter" where
  "MakeSequenceConverter [] src = Inl (SeqUnexpectedValue src)"
| "MakeSequenceConverter (conv # converters) src =
     (case conv src of
        Inr result \<Rightarrow> Inr result
      | Inl err \<Rightarrow> MakeSequenceConverter converters src)"

text \<open>
  \<open>replaceCharacters\<close>: for every rune of \<open>charsToReplace\<close>, in their order, all
  occurrences of its UTF-8 encoding are replaced.
\<close>

fun replace_each :: "string \<Rightarrow> nat list \<Rightarrow> string \<Rightarrow> string" where
  "replace_each src [] replaceTo = src"
| "replace_each src (char # chars) replaceTo =
     replace_each (strings_ReplaceAll src (encoderune char) replaceTo) chars replaceTo"

definition replaceCharacters :: "string \<Rightarrow> string \<Rightarrow> string \<Rightarrow> string" where
  "replaceCharacters src charsToReplace replaceTo =
     replace_each src (range_string charsToReplace) replaceTo"

definition StringToBoolConverter_Convert :: "(string, any) Converter" where
  "StringToBoolConverter_Convert src =
     (case strconv_ParseBool src of Inl err \<Rightarrow> Inl err | Inr b \<Rightarrow> Inr (BoolV b))"

definition StringToUIntConverter_Convert :: "string \<Rightarrow> (string, any) Converter" where
  "StringToUIntConverter_Convert ignoreChars src =
     (case strconv_ParseUint (replaceCharacters src ignoreChars []) of
        Inl err \<Rightarrow> Inl err
      | Inr n \<Rightarrow> Inr (Uint64V n))"

definition StringToIntConverter_Convert :: "string \<Rightarrow> (string, any) Converter" where
  "StringToIntConverter_Convert ignoreChars src =
     (case strconv_ParseInt (replaceCharacters src ignoreChars []) of
        Inl err \<Rightarrow> Inl err
      | Inr n \<Rightarrow> Inr (Int64V n))"

definition StringToNullConverter_Convert :: "string \<Rightarrow> (string, any) Converter" where
  "StringToNullConverter_Convert nullValue src =
     (if src \<noteq> nullValue then Inl (NullUnexpectedValue src) else Inr NilV)"

text \<open>
  \<open>StringToIntervalConverter.Convert\<close>. The loop over the parts stops at the first part
  that \<open>ParseInt\<close> rejects; \<open>partsAsInt64\<close> has nine entries, and the parts are nine
  when the loop is reached.
\<close>

definition intervalFieldsNumber :: nat where
  "intervalFieldsNumber = 9"

fun parseParts :: "string list \<Rightarrow> string error + int64 list" where
  "parseParts [] = Inr []"
| "parseParts (part # parts) =
     (case (strconv_ParseInt part :: string error + int64) of
        Inl err \<Rightarrow> Inl ErrUnexpectedIntervalFmt
      | Inr n \<Rightarrow>
          (case parseParts parts of
             Inl err \<Rightarrow> Inl err
           | Inr ns \<Rightarrow> Inr (n # ns)))"

definition StringToIntervalConverter_Convert :: "(string, any) Converter" where
  "StringToIntervalConverter_Convert src =
     (let parts = strings_Split src CHR '',''
      in if length parts \<noteq> intervalFieldsNumber then Inl ErrUnexpectedIntervalFmt
         else case parseParts parts of
                Inl err \<Rightarrow> Inl err
              | Inr partsAsInt64 \<Rightarrow>
                  (let adjust = partsAsInt64 ! 8
                   in if adjust \<noteq> NoneAdjust \<and> adjust \<noteq> ExcessAdjust \<and> adjust \<noteq> LastAdjust
                      then Inl ErrUnexpectedIntervalFmt
                      else Inr (IntervalV
                             \<lparr>Year = partsAsInt64 ! 0, Month = partsAsInt64 ! 1,
                              Week = partsAsInt64 ! 2, Day = partsAsInt64 ! 3,
                              Hour = partsAsInt64 ! 4, Min = partsAsInt64 ! 5,
                              Sec = partsAsInt64 ! 6, Nsec = partsAsInt64 ! 7,
                              Adjust = adjust\<rparr>)))"

text \<open>
  \<open>IntervalToStringConverter.Convert\<close>:
  \<open>fmt.Sprintf("%d,%d,%d,%d,%d,%d,%d,%d,%d", ...)\<close>.
\<close>

definition IntervalToStringConverter_Convert :: "Interval \<Rightarrow> Interval error + string" where
  "IntervalToStringConverter_Convert interval =
     Inr (fmt_d (Year interval) @ '','' @ fmt_d (Month interval) @ '','' @
          fmt_d (Week interval) @ '','' @ fmt_d (Day interval) @ '','' @
          fmt_d (Hour interval) @ '','' @ fmt_d (Min interval) @ '','' @
          fmt_d (Sec interval) @ '','' @ fmt_d (Nsec interval) @ '','' @
          fmt_d (Adjust interval))"

definition StringToFloatConverter_Convert ::
  "go_ext \<Rightarrow> string \<Rightarrow> string \<Rightarrow> (string, any) Converter" where
  "StringToFloatConverter_Convert E ignoreChars decSeparators src =
     (case strconv_ParseFloat E
             (replaceCharacters (replaceCharacters src ignoreChars []) decSeparators ''.'') of
        Inl err \<Rightarrow> Inl err
      | Inr f \<Rightarrow> Inr (Float64V f))"

definition StringToDecimalConverter_Convert ::
  "go_ext \<Rightarrow> string \<Rightarrow> string \<Rightarrow> (string, any) Converter" where
  "StringToDecimalConverter_Convert E ignoreChars decSeparators src =
     (case decimal_NewDecimalFromString E
             (replaceCharacters (replaceCharacters src ignoreChars []) decSeparators ''.'') of
        Inl err \<Rightarrow> Inl err
      | Inr d \<Rightarrow> Inr (DecimalV d))"

definition StringToUUIDConverter_Convert :: "go_ext \<Rightarrow> (string, any) Converter" where
  "StringToUUIDConverter_Convert E src =
     (case uuid_Parse E src of Inl err \<Rightarrow> Inl err | Inr u \<Rightarrow> Inr (UUIDV u))"

text \<open>
  \<open>StringToDatetimeConverter.Convert\<close>, in the version with the two formats
  \<open>2006-01-02T15:04:05.999999999-0700\<close> and \<open>2006-01-02T15:04:05.999999999 Europe/Moscow\<close>
  (the older \<open>converter.go\<close> tries four layouts of \<open>time.Parse\<close> in turn instead).
\<close>

definition dateTimeLayout :: string where
  "dateTimeLayout = ''2006-01-02T15:04:05.999999999''"

definition dateTimeOffsetLayout :: string where
  "dateTimeOffsetLayout = ''2006-01-02T15:04:05.999999999-0700''"

definition StringToDatetimeConverter_Convert :: "go_ext \<Rightarrow> (string, any) Converter" where
  "StringToDatetimeConverter_Convert E src =
     (case strings_Cut src CHR '' '' of
        (date, tzName, ok) \<Rightarrow>
          if \<not> ok then
            (case time_Parse E dateTimeOffsetLayout src of
               Inl err \<Rightarrow> Inl err
             | Inr tm \<Rightarrow>
                 (case Time_Zone E tm of
                    (zone, offset) \<Rightarrow>
                      (case datetime_NewDatetime E
                              (Time_In E tm (time_FixedZone E NoTimezone offset)) of
                         Inl err \<Rightarrow> Inl err
                       | Inr dt \<Rightarrow> Inr (DatetimeV dt))))
          else
            (case time_LoadLocation E tzName of
               Inl err \<Rightarrow> Inl err
             | Inr loc \<Rightarrow>
                 (case time_ParseInLocation E dateTimeLayout date loc of
                    Inl err \<Rightarrow> Inl err
                  | Inr tm \<Rightarrow>
                      (case datetime_NewDatetime E tm of
                         Inl err \<Rightarrow> Inl err
                       | Inr dt \<Rightarrow> Inr (DatetimeV dt)))))"

text \<open>
  \<open>StringToMapConverter.Convert\<close> and \<open>StringToSliceConverter.Convert\<close>: both return
  what \<open>json.Unmarshal\<close> returns (\<open>None\<close> where the decoder is not modelled).
\<close>

definition StringToMapConverter_Convert :: "string \<Rightarrow> (string error + any) option" where
  "StringToMapConverter_Convert src =
     (case json_Unmarshal src of
        None \<Rightarrow> None
      | Some (Inl err) \<Rightarrow> Some (Inl err)
      | Some (Inr result) \<Rightarrow> Some (Inr result))"

definition StringToSliceConverter_Convert :: "string \<Rightarrow> (string error + any) option" where
  "StringToSliceConverter_Convert src =
     (case json_Unmarshal src of
        None \<Rightarrow> None
      | Some (Inl err) \<Rightarrow> Some (Inl err)
      | Some (Inr result) \<Rightarrow> Some (Inr result))"

definition StringToBinaryConverter_Convert :: "(string, any) Converter" where
  "StringToBinaryConverter_Convert src = Inr (BytesV src)"

section \<open>The factories and the assembler\<close>

definition TypeBoolean :: string where "TypeBoolean = ''boolean''"
definition TypeString :: string where "TypeString = ''string''"
definition TypeInteger :: string where "TypeInteger = ''integer''"
definition TypeUnsigned :: string where "TypeUnsigned = ''unsigned''"
definition TypeDouble :: string where "TypeDouble = ''double''"
definition TypeNumber :: string where "TypeNumber = ''number''"
definition TypeDecimal :: string where "TypeDecimal = ''decimal''"
definition TypeDatetime :: string where "TypeDatetime = ''datetime''"
definition TypeUUID :: string where "TypeUUID = ''uuid''"
definition TypeArray :: string where "TypeArray = ''array''"
definition TypeMap :: string where "TypeMap = ''map''"
definition TypeVarbinary :: string where "TypeVarbinary = ''varbinary''"
definition TypeScalar :: string where "TypeScalar = ''scalar''"
definition TypeAny :: string where "TypeAny = ''any''"
definition TypeInterval :: string where "TypeInterval = ''interval''"

text \<open>
  The interface \<open>TTConvFactory[Type]\<close>: one converter for each type name, and
  \<open>MakeNullableConverter\<close>.
\<close>

record 's TTConvFactory =
  GetBooleanConverter :: "('s, any) Converter"
  GetStringConverter :: "('s, any) Converter"
  GetUnsignedConverter :: "('s, any) Converter"
  GetDatetimeConverter :: "('s, any) Converter"
  GetUUIDConverter :: "('s, any) Converter"
  GetMapConverter :: "('s, any) Converter"
  GetArrayConverter :: "('s, any) Converter"
  GetVarbinaryConverter :: "('s, any) Converter"
  GetDoubleConverter :: "('s, any) Converter"
  GetDecimalConverter :: "('s, any) Converter"
  GetIntegerConverter :: "('s, any) Converter"
  GetNumberConverter :: "('s, any) Converter"
  GetAnyConverter :: "('s, any) Converter"
  GetScalarConverter :: "('s, any) Converter"
  GetIntervalConverter :: "('s, any) Converter"
  MakeNullableConverter :: "('s, any) Converter \<Rightarrow> ('s, any) Converter"

text \<open>
  \<open>StringToTTConvFactory\<close>, the default factory for strings. A method of the factory
  that calls another one (\<open>GetAnyConverter\<close> calls \<open>GetNumberConverter\<close>) calls the
  factory's own: Go dispatches it statically.
\<close>

record StringToTTConvFactory =
  thousandSeparators :: string
  decimalSeparators :: string
  nullValue :: string

definition MakeStringToTTConvFactory :: StringToTTConvFactory where
  "MakeStringToTTConvFactory =
     \<lparr>thousandSeparators = [], decimalSeparators = ''.'', nullValue = []\<rparr>"

definition WithNullValue :: "StringToTTConvFactory \<Rightarrow> string \<Rightarrow> StringToTTConvFactory" where
  "WithNullValue fac v = fac\<lparr>nullValue := v\<rparr>"

definition WithThousandSeparators ::
  "StringToTTConvFactory \<Rightarrow> string \<Rightarrow> StringToTTConvFactory" where
  "WithThousandSeparators fac separators = fac\<lparr>thousandSeparators := separators\<rparr>"

definition WithDecimalSeparators ::
  "StringToTTConvFactory \<Rightarrow> string \<Rightarrow> StringToTTConvFactory" where
  "WithDecimalSeparators fac separators = fac\<lparr>decimalSeparators := separators\<rparr>"

definition StringToTTConvFactory_GetNumberConverter ::
  "go_ext \<Rightarrow> StringToTTConvFactory \<Rightarrow> (string, any) Converter" where
  "StringToTTConvFactory_GetNumberConverter E fac =
     MakeSequenceConverter
       [StringToUIntConverter_Convert (thousandSeparators fac),
        StringToIntConverter_Convert (thousandSeparators fac),
        StringToFloatConverter_Convert E (thousandSeparators fac) (decimalSeparators fac)]"

definition StringToTTConvFactory_GetDecimalConverter ::
  "go_ext \<Rightarrow> StringToTTConvFactory \<Rightarrow> (string, any) Converter" where
  "StringToTTConvFactory_GetDecimalConverter E fac =
     StringToDecimalConverter_Convert E (thousandSeparators fac) (decimalSeparators fac)"

definition StringToTTConvFactory_GetAnyConverter ::
  "go_ext \<Rightarrow> StringToTTConvFactory \<Rightarrow> (string, any) Converter" where
  "StringToTTConvFactory_GetAnyConverter E fac =
     MakeSequenceConverter
       [StringToTTConvFactory_GetNumberConverter E fac,
        StringToTTConvFactory_GetDecimalConverter E fac,
        StringToBoolConverter_Convert,
        StringToDatetimeConverter_Convert E,
        StringToUUIDConverter_Convert E,
        StringToIntervalConverter_Convert,
        IdentityConverter_Convert]"

definition StringToTTConvFactory_GetScalarConverter ::
  "go_ext \<Rightarrow> StringToTTConvFactory \<Rightarrow> (string, any) Converter" where
  "StringToTTConvFactory_GetScalarConverter E fac =
     MakeSequenceConverter
       [StringToTTConvFactory_GetNumberConverter E fac,
        StringToTTConvFactory_GetDecimalConverter E fac,
        StringToBoolConverter_Convert,
        StringToDatetimeConverter_Convert E,
        StringToUUIDConverter_Convert E,
        StringToIntervalConverter_Convert,
        IdentityConverter_Convert]"

definition StringToTTConvFactory_MakeNullableConverter ::
  "StringToTTConvFactory \<Rightarrow> (string, any) Converter \<Rightarrow> (string, any) Converter" where
  "StringToTTConvFactory_MakeNullableConverter fac converter =
     MakeSequenceConverter [StringToNullConverter_Convert (nullValue fac), converter]"

text \<open>\<open>GetConverterByType\<close>: the \<open>switch\<close> over the type name.\<close>

definition GetConverterByType ::
  "'s TTConvFactory \<Rightarrow> string \<Rightarrow> 's error + ('s, any) Converter" where
  "GetConverterByType fac typ =
     (if typ = TypeBoolean then Inr (GetBooleanConverter fac)
      else if typ = TypeString then Inr (GetStringConverter fac)
      else if typ = TypeUnsigned then Inr (GetUnsignedConverter fac)
      else if typ = TypeDatetime then Inr (GetDatetimeConverter fac)
      else if typ = TypeUUID then Inr (GetUUIDConverter fac)
      else if typ = TypeMap then Inr (GetMapConverter fac)
      else if typ = TypeArray then Inr (GetArrayConverter fac)
      else if typ = TypeVarbinary then Inr (GetVarbinaryConverter fac)
      else if typ = TypeDouble then Inr (GetDoubleConverter fac)
      else if typ = TypeDecimal then Inr (GetDecimalConverter fac)
      else if typ = TypeInteger then Inr (GetIntegerConverter fac)
      else if typ = TypeNumber then Inr (GetNumberConverter fac)
      else if typ = TypeAny then Inr (GetAnyConverter fac)
      else if typ = TypeScalar then Inr (GetScalarConverter fac)
      else if typ = TypeInterval then Inr (GetIntervalConverter fac)
      else Inl (UnexpectedType typ))"

record SpaceField =
  Id :: "32 word"
  Name :: string
  Type :: string
  IsNullable :: bool

text \<open>
  \<open>MakeTypeToTTConverters\<close>: the loop over the space format returns at the first field
  whose type has no converter; every other field gets its converter, made nullable when
  the field is, inside a converter that replaces any error by one naming the value and the
  type.
\<close>

definition fieldConverter ::
  "('s, any) Converter \<Rightarrow> string \<Rightarrow> ('s, any) Converter" where
  "fieldConverter conv typ s =
     (case conv s of
        Inl err \<Rightarrow> Inl (UnexpectedValueForType s typ)
      | Inr result \<Rightarrow> Inr result)"

fun MakeTypeToTTConverters ::
  "'s TTConvFactory \<Rightarrow> SpaceField list \<Rightarrow> 's error + ('s, any) Converter list" where
  "MakeTypeToTTConverters fac [] = Inr []"
| "MakeTypeToTTConverters fac (fieldFmt # spaceFmt) =
     (let typ = Type fieldFmt in
      case GetConverterByType fac typ of
        Inl err \<Rightarrow> Inl err
      | Inr conv \<Rightarrow>
          (let conv' = (if IsNullable fieldFmt then MakeNullableConverter fac conv else conv)
           in case MakeTypeToTTConverters fac spaceFmt of
                Inl err \<Rightarrow> Inl err
              | Inr converters \<Rightarrow> Inr (fieldConverter conv' typ # converters)))"

text \<open>The factory of \<open>tt_test.go\<close>, whose converters return the name of their type.\<close>

definition mockConverter :: "string \<Rightarrow> (any, any) Converter" where
  "mockConverter name s = Inr (StringV name)"

definition MockTypeToTTConvFactory :: "any TTConvFactory" where
  "MockTypeToTTConvFactory =
     \<lparr>GetBooleanConverter = mockConverter ''boolean'',
      GetStringConverter = mockConverter ''string'',
      GetUnsignedConverter = mockConverter ''unsigned'',
      GetDatetimeConverter = mockConverter ''datetime'',
      GetUUIDConverter = mockConverter ''uuid'',
      GetMapConverter = mockConverter ''map'',
      GetArrayConverter = mockConverter ''array'',
      GetVarbinaryConverter = mockConverter ''varbinary'',
      GetDoubleConverter = mockConverter ''double'',
      GetDecimalConverter = mockConverter ''decimal'',
      GetIntegerConverter = mockConverter ''integer'',
      GetNumberConverter = mockConverter ''number'',
      GetAnyConverter = mockConverter ''any'',
      GetScalarConverter = mockConverter ''scalar'',
      GetIntervalConverter = mockConverter ''interval'',
      MakeNullableConverter = (\<lambda>c. mockConverter ''null'')\<rparr>"

section \<open>mapper.go\<close>

record ('s, 't) Mapper =
  converters :: "('s, 't) Converter list"
  defaultConverter :: "('s, 't) Converter option"

definition MakeMapper :: "('s, 't) Converter list \<Rightarrow> ('s, 't) Mapper" where
  "MakeMapper convs = \<lparr>converters = convs, defaultConverter = None\<rparr>"

definition WithDefaultConverter ::
  "('s, 't) Mapper \<Rightarrow> ('s, 't) Converter \<Rightarrow> ('s, 't) Mapper" where
  "WithDefaultConverter mapper converter = mapper\<lparr>defaultConverter := Some converter\<rparr>"

definition validateTuple :: "('s, 't) Mapper \<Rightarrow> 's list \<Rightarrow> 's error option" where
  "validateTuple mapper tuple =
     (if length tuple > length (converters mapper) \<and> defaultConverter mapper = None
      then Some TupleLengthError else None)"

text \<open>
  The loop of \<open>Map\<close> from index \<open>i\<close> on. Dereferencing a nil default converter would
  panic; \<open>validateTuple\<close> keeps the loop from getting there.
\<close>

fun Map_loop :: "('s, 't) Mapper \<Rightarrow> nat \<Rightarrow> 's list \<Rightarrow> 's error + 't list" where
  "Map_loop mapper i [] = Inr []"
| "Map_loop mapper i (field # tuple) =
     (case (if i < length (converters mapper) then (converters mapper ! i) field
            else (case defaultConverter mapper of
                    None \<Rightarrow> Inl NilDereference
                  | Some conv \<Rightarrow> conv field)) of
        Inl err \<Rightarrow> Inl err
      | Inr r \<Rightarrow>
          (case Map_loop mapper (Suc i) tuple of
             Inl err \<Rightarrow> Inl err
           | Inr result \<Rightarrow> Inr (r # result)))"

definition Map :: "('s, 't) Mapper \<Rightarrow> 's list \<Rightarrow> 's error + 't list" where
  "Map mapper tuple =
     (case validateTuple mapper tuple of
        Some err \<Rightarrow> Inl err
      | None \<Rightarrow> Map_loop mapper 0 tuple)"

text \<open>The converters of \<open>TestMapper_basicMapper\<close> and \<open>TestMapper_partialMapper\<close>.\<close>

definition idealMapper :: "(string, any) Converter" where
  "idealMapper t = Inr (IntV 42)"

definition nonIdealMapper :: "(string, any) Converter" where
  "nonIdealMapper t = (if t = ''bad'' then Inl (LibError ''some error'') else Inr (StringV t))"

definition nullMapper :: "(string, any) Converter" where
  "nullMapper s = (if s = ''null'' then Inr NilV else Inr (StringV s))"

section \<open>Notions of the specification\<close>

text \<open>
  A decimal digit, and the number a string of digits denotes (\<open>decimal_value 0\<close>).
\<close>

definition is_digit :: "char \<Rightarrow> bool" where
  "is_digit c = (48 \<le> (of_char c :: nat) \<and> (of_char c :: nat) \<le> 57)"

fun decimal_value :: "nat \<Rightarrow> string \<Rightarrow> nat" where
  "decimal_value acc [] = acc"
| "decimal_value acc (c # cs) = decimal_value (acc * 10 + (of_char c - 48)) cs"

text \<open>
  "A valid base-10 signed 64-bit integer": an optional sign \<open>+\<close> or \<open>-\<close>, then one
  or more decimal digits, denoting a number from \<open>-2^63\<close> to \<open>2^63 - 1\<close>.
\<close>

definition literal_negative :: "string \<Rightarrow> bool" where
  "literal_negative s = (s \<noteq> [] \<and> hd s = CHR ''-'')"

definition literal_digits :: "string \<Rightarrow> string" where
  "literal_digits s = (if s \<noteq> [] \<and> (hd s = CHR ''+'' \<or> hd s = CHR ''-'') then tl s else s)"

definition valid_int64 :: "string \<Rightarrow> bool" where
  "valid_int64 s =
     (literal_digits s \<noteq> [] \<and> list_all is_digit (literal_digits s) \<and>
      (if literal_negative s then decimal_value 0 (literal_digits s) \<le> 2 ^ 63
       else decimal_value 0 (literal_digits s) < 2 ^ 63))"

definition int64_value :: "string \<Rightarrow> int" where
  "int64_value s =
     (if literal_negative s then - int (decimal_value 0 (literal_digits s))
      else int (decimal_value 0 (literal_digits s)))"

text \<open>
  \<open>inserted e n s\<close>: the string \<open>s\<close> is \<open>n\<close> with copies of the string \<open>e\<close>
  (a separator character in its UTF-8 encoding) inserted at any positions; the bytes of
  \<open>n\<close> stay in their order. \<open>is_ascii\<close> holds of the bytes below \<open>0x80\<close>, among
  them the digits and the signs.
\<close>

fun inserted :: "string \<Rightarrow> string \<Rightarrow> string \<Rightarrow> bool" where
  "inserted e n [] = (n = [])"
| "inserted e n (y # ys) =
     ((n \<noteq> [] \<and> hd n = y \<and> inserted e (tl n) ys) \<or>
      (e \<noteq> [] \<and> take (length e) (y # ys) = e \<and> inserted e n (drop (length e - 1) ys)))"

definition is_ascii :: "char \<Rightarrow> bool" where
  "is_ascii c = ((of_char c :: nat) < 0x80)"

text \<open>
  The shape of an encoded rune: one ASCII byte, or a lead byte from \<open>0xC0\<close> on that
  fixes how many continuation bytes follow. \<open>place e ts\<close> writes out a plan of
  insertion: \<open>Some d\<close> is a byte that is kept, \<open>None\<close> a copy of \<open>e\<close>; \<open>kept ts\<close>
  is the string without the copies.
\<close>

definition continuation_count :: "char \<Rightarrow> nat" where
  "continuation_count l =
     (if (of_char l :: nat) < 0xE0 then 1 else if (of_char l :: nat) < 0xF0 then 2 else 3)"

definition multi_byte :: "string \<Rightarrow> bool" where
  "multi_byte p =
     (p \<noteq> [] \<and> 0xC0 \<le> (of_char (hd p) :: nat) \<and> length (tl p) = continuation_count (hd p) \<and>
      list_all continuation (tl p))"

definition utf8_unit :: "string \<Rightarrow> bool" where
  "utf8_unit p = ((length p = 1 \<and> is_ascii (hd p)) \<or> multi_byte p)"

definition place :: "string \<Rightarrow> char option list \<Rightarrow> string" where
  "place e ts = concat (map (\<lambda>t. case t of None \<Rightarrow> e | Some d \<Rightarrow> [d]) ts)"

definition kept :: "char option list \<Rightarrow> string" where
  "kept ts = concat (map (\<lambda>t. case t of None \<Rightarrow> [] | Some d \<Rightarrow> [d]) ts)"

text \<open>
  The interval that nine parts denote, in the order year, month, week, day, hour, min, sec,
  nanosecond, adjust; the inputs the specification says the interval converter accepts;
  and the nine fields of an interval in that order.
\<close>

definition interval_of_parts :: "string list \<Rightarrow> Interval" where
  "interval_of_parts parts =
     \<lparr>Year = word_of_int (int64_value (parts ! 0)), Month = word_of_int (int64_value (parts ! 1)),
      Week = word_of_int (int64_value (parts ! 2)), Day = word_of_int (int64_value (parts ! 3)),
      Hour = word_of_int (int64_value (parts ! 4)), Min = word_of_int (int64_value (parts ! 5)),
      Sec = word_of_int (int64_value (parts ! 6)), Nsec = word_of_int (int64_value (parts ! 7)),
      Adjust = word_of_int (int64_value (parts ! 8))\<rparr>"

definition interval_accepts :: "string \<Rightarrow> bool" where
  "interval_accepts src =
     (let parts = strings_Split src CHR '','' in
      length parts = 9 \<and> list_all valid_int64 parts \<and> int64_value (parts ! 8) \<in> {0, 1, 2})"

definition interval_fields :: "Interval \<Rightarrow> int64 list" where
  "interval_fields x = [Year x, Month x, Week x, Day x, Hour x, Min x, Sec x, Nsec x, Adjust x]"

text \<open>
  Applying a list of converters to a tuple position by position, up to the first error;
  and the type names of the enumerated set.
\<close>

fun convert_each :: "('s, 't) Converter list \<Rightarrow> 's list \<Rightarrow> 's error + 't list" where
  "convert_each (conv # convs) (x # xs) =
     (case conv x of
        Inl err \<Rightarrow> Inl err
      | Inr r \<Rightarrow> (case convert_each convs xs of Inl err \<Rightarrow> Inl err | Inr rs \<Rightarrow> Inr (r # rs)))"
| "convert_each convs xs = Inr []"

definition TypeNames :: "string list" where
  "TypeNames =
     [TypeBoolean, TypeString, TypeInteger, TypeUnsigned, TypeDouble, TypeNumber, TypeDecimal,
      TypeDatetime, TypeUUID, TypeArray, TypeMap, TypeVarbinary, TypeScalar, TypeAny,
      TypeInterval]"

definition known_type :: "SpaceField \<Rightarrow> bool" where
  "known_type f = (Type f \<in> set TypeNames)"

text \<open>The top-level shapes of a decoded JSON document.\<close>

fun is_sequence :: "any \<Rightarrow> bool" where
  "is_sequence (SliceV xs) = True"
| "is_sequence v = False"

fun is_string_keyed_mapping :: "any \<Rightarrow> bool" where
  "is_string_keyed_mapping (MapV m) = True"
| "is_string_keyed_mapping v = False"

text \<open>
  The JSON text of a value, written without white space: \<open>render\<close>. It is defined on
  the values that a document without numbers decodes to (\<open>json_wf\<close>): \<open>null\<close>,
  the booleans, strings of printable ASCII characters other than the quote and the
  backslash, arrays, and objects whose keys are such strings and differ from each other.
  \<open>nesting\<close> is the depth to which arrays and objects are nested, \<open>member\<close> the
  text of one member of an object, and \<open>opens_value\<close> holds of the first characters
  of these texts.
\<close>

fun join :: "string \<Rightarrow> string list \<Rightarrow> string" where
  "join sep [] = []"
| "join sep [x] = x"
| "join sep (x # y # ys) = x @ sep @ join sep (y # ys)"

definition quoted :: "string \<Rightarrow> string" where
  "quoted s = CHR 0x22 # s @ [CHR 0x22]"

fun render :: "any \<Rightarrow> string" where
  "render NilV = ''null''"
| "render (BoolV b) = (if b then ''true'' else ''false'')"
| "render (StringV s) = quoted s"
| "render (SliceV xs) = ''['' @ join '','' (map render xs) @ '']''"
| "render (MapV m) =
     ''{'' @ join '','' (map (\<lambda>kv. quoted (fst kv) @ '':'' @ render (snd kv)) m) @ ''}''"
| "render v = []"

definition plain :: "string \<Rightarrow> bool" where
  "plain s =
     list_all (\<lambda>c. 32 \<le> (of_char c :: nat) \<and> (of_char c :: nat) < 127 \<and> c \<noteq> CHR 0x22 \<and>
                    c \<noteq> CHR 0x5C) s"

fun json_wf :: "any \<Rightarrow> bool" where
  "json_wf NilV = True"
| "json_wf (BoolV b) = True"
| "json_wf (StringV s) = plain s"
| "json_wf (SliceV xs) = list_all json_wf xs"
| "json_wf (MapV m) =
     (distinct (map fst m) \<and> list_all (\<lambda>kv. plain (fst kv) \<and> json_wf (snd kv)) m)"
| "json_wf v = False"

fun nesting :: "any \<Rightarrow> nat" where
  "nesting (SliceV xs) = Suc (foldr max (map nesting xs) 0)"
| "nesting (MapV m) = Suc (foldr max (map (\<lambda>kv. nesting (snd kv)) m) 0)"
| "nesting v = 0"

definition opens_value :: "char \<Rightarrow> bool" where
  "opens_value c = (c \<in> set ''ntf[{'' \<or> c = CHR 0x22)"

definition member :: "string \<times> any \<Rightarrow> string" where
  "member kv = quoted (fst kv) @ '':'' @ render (snd kv)"

section \<open>Lemmas about the library functions\<close>

lemma digit_value_iff:
  "(digit_value c = Some d \<and> d < 10) \<longleftrightarrow> (is_digit c \<and> d = of_char c - 48)"
  by (auto simp: digit_value_def is_digit_def Let_def split: if_splits)

lemma decimal_value_mono: "acc \<le> decimal_value acc cs"
proof (induction cs arbitrary: acc)
  case Nil
  show ?case by simp
next
  case (Cons c cs)
  have "acc \<le> acc * 10 + (of_char c - 48)" by simp
  also have "\<dots> \<le> decimal_value (acc * 10 + (of_char c - 48)) cs" by (rule Cons.IH)
  finally show ?case by simp
qed

lemma cutoff_val: "unat (maxUint64 div 10 + 1) = 1844674407370955162"
  by (simp add: maxUint64_def)

lemma maxval: "unat maxUint64 = 18446744073709551615"
  by (simp add: maxUint64_def)

lemma step_exact:
  fixes n :: uint64
  assumes "unat n * 10 + d < 2 ^ 64"
  shows "unat (n * 10 + of_nat d) = unat n * 10 + d" and "unat (n * 10) = unat n * 10"
proof -
  show b: "unat (n * 10) = unat n * 10"
    using assms by (simp add: unat_word_ariths)
  have "d < 2 ^ 64" using assms by simp
  then have "unat (of_nat d :: uint64) = d"
    by (simp add: unat_of_nat)
  then show "unat (n * 10 + of_nat d) = unat n * 10 + d"
    using assms b by (simp add: unat_word_ariths)
qed

lemma step_wrap:
  fixes n :: uint64
  assumes "unat n < 1844674407370955162" and "d < 10" and "\<not> unat n * 10 + d < 2 ^ 64"
  shows "n * 10 + of_nat d < n * 10"
proof -
  have a: "unat (n * 10) = unat n * 10"
    using assms(1) by (simp add: unat_word_ariths)
  have dd: "unat (of_nat d :: uint64) = d"
    using assms(2) by (simp add: unat_of_nat)
  have "unat (n * 10 + of_nat d) = (unat n * 10 + d) mod 2 ^ 64"
    using a dd by (simp add: unat_word_ariths)
  also have "\<dots> = unat n * 10 + d - 2 ^ 64"
    using assms by (simp add: mod_if)
  also have "\<dots> < unat n * 10"
    using assms by simp
  finally show ?thesis
    using a by (simp add: word_less_nat_alt)
qed


lemma ParseUint_loop_iff:
  "ParseUint_loop n cs = Inr w \<longleftrightarrow>
     list_all is_digit cs \<and> decimal_value (unat n) cs < 2 ^ 64 \<and> w = of_nat (decimal_value (unat n) cs)"
proof (induction cs arbitrary: n)
  case Nil
  show ?case
    using unsigned_less [of n] by (auto simp del: unsigned_less)
next
  case (Cons c cs)
  show ?case
  proof (cases "is_digit c")
    case False
    then have "digit_value c = None \<or> (\<exists>d. digit_value c = Some d \<and> d \<ge> 10)"
      using digit_value_iff [of c] by (cases "digit_value c") (auto simp: not_less)
    then have "ParseUint_loop n (c # cs) = Inl ErrSyntax"
      by auto
    with False show ?thesis by simp
  next
    case True
    define d where "d = (of_char c :: nat) - 48"
    have dv: "digit_value c = Some d" and d10: "d < 10"
      using True digit_value_iff [of c d] by (auto simp: d_def is_digit_def)
    show ?thesis
    proof (cases "unat n * 10 + d < 2 ^ 64")
      case small: True
      then have lt: "\<not> n \<ge> maxUint64 div 10 + 1"
        by (simp add: word_le_nat_alt cutoff_val)
      have e1: "unat (n * 10 + of_nat d) = unat n * 10 + d" and e2: "unat (n * 10) = unat n * 10"
        using step_exact [OF small] by simp_all
      have ok: "\<not> (n * 10 + of_nat d < n * 10 \<or> n * 10 + of_nat d > maxUint64)"
        using small by (simp add: word_less_nat_alt e1 e2 maxval)
      have "ParseUint_loop n (c # cs) = ParseUint_loop (n * 10 + of_nat d) cs"
        using dv d10 lt ok by (simp add: Let_def)
      moreover have "decimal_value (unat n) (c # cs) = decimal_value (unat (n * 10 + of_nat d)) cs"
        unfolding e1 by (simp add: d_def)
      ultimately show ?thesis
        using Cons.IH [of "n * 10 + of_nat d"] True by (simp del: decimal_value.simps ParseUint_loop.simps)
    next
      case big: False
      have "ParseUint_loop n (c # cs) = Inl ErrRange"
      proof (cases "n \<ge> maxUint64 div 10 + 1")
        case True
        then show ?thesis using dv d10 by simp
      next
        case False
        then have "unat n < 1844674407370955162"
          by (simp add: word_le_nat_alt cutoff_val)
        then have "n * 10 + of_nat d < n * 10"
          using step_wrap d10 big by blast
        then show ?thesis using dv d10 False by (simp add: Let_def)
      qed
      moreover have "\<not> decimal_value (unat n * 10 + d) cs < 2 ^ 64"
        using big decimal_value_mono [of "unat n * 10 + d" cs] by simp
      ultimately show ?thesis
        by (simp add: d_def)
    qed
  qed
qed


lemma ParseUint_base10_iff:
  "ParseUint_base10 s = Inr w \<longleftrightarrow>
     s \<noteq> [] \<and> list_all is_digit s \<and> decimal_value 0 s < 2 ^ 64 \<and> w = of_nat (decimal_value 0 s)"
  using ParseUint_loop_iff [of 0 s w] by (simp add: ParseUint_base10_def)

lemma strconv_ParseInt_nonempty:
  assumes "s \<noteq> []"
  shows "strconv_ParseInt s =
     (case ParseUint_base10 (literal_digits s) of
        Inl ErrSyntax \<Rightarrow> Inl (NumError ''ParseInt'' s ErrSyntax)
      | r \<Rightarrow>
          (let un = (case r of Inr n \<Rightarrow> n | Inl e \<Rightarrow> maxUint64);
               cutoff = (9223372036854775808 :: uint64)
           in if \<not> literal_negative s \<and> un \<ge> cutoff then Inl (NumError ''ParseInt'' s ErrRange)
              else if literal_negative s \<and> un > cutoff then Inl (NumError ''ParseInt'' s ErrRange)
              else Inr (if literal_negative s then - un else un)))"
proof -
  have ds: "(if hd s = CHR ''+'' \<or> hd s = CHR ''-'' then tl s else s) = literal_digits s"
    using assms by (simp add: literal_digits_def)
  have neg: "(hd s = CHR ''-'') = literal_negative s"
    using assms by (simp add: literal_negative_def)
  show ?thesis
    unfolding strconv_ParseInt_def Let_def ds
    unfolding neg using assms by (simp only: if_False)
qed

lemma strconv_ParseInt_iff:
  "(strconv_ParseInt s = (Inr w :: 'a error + int64)) \<longleftrightarrow>
     valid_int64 s \<and> w = word_of_int (int64_value s)"
proof (cases "s = []")
  case True
  then show ?thesis
    by (simp add: strconv_ParseInt_def valid_int64_def literal_digits_def)
next
  case False
  define ds where "ds = literal_digits s"
  define neg where "neg = literal_negative s"
  show ?thesis
  proof (cases "ParseUint_base10 ds")
    case (Inl e)
    then have "\<not> (ds \<noteq> [] \<and> list_all is_digit ds \<and> decimal_value 0 ds < 2 ^ 64)"
      using ParseUint_base10_iff [of ds] by auto
    then have nv: "\<not> valid_int64 s"
      by (auto simp: valid_int64_def ds_def [symmetric] split: if_splits)
    have "strconv_ParseInt s = (Inl (NumError ''ParseInt'' s e) :: 'a error + int64)"
      using Inl unfolding strconv_ParseInt_nonempty [OF False] ds_def [symmetric]
      by (cases e) (simp_all add: maxUint64_def word_le_nat_alt word_less_nat_alt)
    with nv show ?thesis by simp
  next
    case (Inr un)
    define v where "v = decimal_value 0 ds"
    have un: "ds \<noteq> []" "list_all is_digit ds" "v < 2 ^ 64" "un = of_nat v"
      using Inr ParseUint_base10_iff [of ds un] by (simp_all add: v_def)
    have uv: "unat un = v"
      using un(3,4) by (simp add: unat_of_nat)
    show ?thesis
    proof (cases neg)
      case True
      have "strconv_ParseInt s =
          (if v > 2 ^ 63 then Inl (NumError ''ParseInt'' s ErrRange) else Inr (- un) :: 'a error + int64)"
        using Inr True unfolding strconv_ParseInt_nonempty [OF False] ds_def [symmetric] neg_def [symmetric]
        by (simp add: word_le_nat_alt word_less_nat_alt uv)
      moreover have "valid_int64 s \<longleftrightarrow> v \<le> 2 ^ 63"
        using un True by (simp add: valid_int64_def ds_def [symmetric] neg_def [symmetric] v_def)
      moreover have "word_of_int (int64_value s) = - un"
        using True un(4) by (simp add: int64_value_def ds_def [symmetric] neg_def [symmetric] v_def [symmetric])
      ultimately show ?thesis by auto
    next
      case nonneg: False
      have "strconv_ParseInt s =
          (if v \<ge> 2 ^ 63 then Inl (NumError ''ParseInt'' s ErrRange) else Inr un :: 'a error + int64)"
        using Inr nonneg unfolding strconv_ParseInt_nonempty [OF False] ds_def [symmetric] neg_def [symmetric]
        by (simp add: word_le_nat_alt word_less_nat_alt uv)
      moreover have "valid_int64 s \<longleftrightarrow> v < 2 ^ 63"
        using un nonneg by (simp add: valid_int64_def ds_def [symmetric] neg_def [symmetric] v_def)
      moreover have "word_of_int (int64_value s) = un"
        using nonneg un(4) by (simp add: int64_value_def ds_def [symmetric] neg_def [symmetric] v_def [symmetric])
      ultimately show ?thesis by auto
    qed
  qed
qed

lemma decimal_value_snoc:
  "decimal_value acc (cs @ [c]) = decimal_value acc cs * 10 + (of_char c - 48)"
  by (induction cs arbitrary: acc) simp_all

lemma is_digit_char_of: "d < 10 \<Longrightarrow> is_digit (char_of (48 + d :: nat))"
  by (simp add: is_digit_def)

lemma fmt_dec_digits: "list_all is_digit (fmt_dec u)"
proof (induction u rule: fmt_dec.induct)
  case (1 u)
  show ?case
  proof (cases "u \<ge> 10")
    case True
    then show ?thesis
      using "1.IH" is_digit_char_of [of "u mod 10"]
      by (subst fmt_dec.simps) simp
  next
    case False
    then show ?thesis
      using is_digit_char_of [of u] by (subst fmt_dec.simps) simp
  qed
qed

lemma fmt_dec_nonempty: "fmt_dec u \<noteq> []"
  by (subst fmt_dec.simps) simp

lemma fmt_dec_value: "decimal_value 0 (fmt_dec u) = u"
proof (induction u rule: fmt_dec.induct)
  case (1 u)
  show ?case
  proof (cases "u \<ge> 10")
    case True
    have "decimal_value 0 (fmt_dec u) = decimal_value 0 (fmt_dec (u div 10) @ [char_of (48 + u mod 10)])"
      using True by (subst fmt_dec.simps) simp
    also have "\<dots> = (u div 10) * 10 + u mod 10"
      using "1.IH" [OF True] by (simp add: decimal_value_snoc del: fmt_dec.simps)
    finally show ?thesis by simp
  next
    case False
    then show ?thesis
      by (subst fmt_dec.simps) simp
  qed
qed

lemma is_digit_not_sign: "is_digit c \<Longrightarrow> c \<noteq> CHR ''+'' \<and> c \<noteq> CHR ''-'' \<and> c \<noteq> CHR '',''"
  by (auto simp: is_digit_def)

lemma fmt_dec_hd: "is_digit (hd (fmt_dec u))"
  using fmt_dec_digits [of u] fmt_dec_nonempty [of u]
  by (cases "fmt_dec u") simp_all

lemma fmt_dec_literal:
  "literal_digits (fmt_dec u) = fmt_dec u" "\<not> literal_negative (fmt_dec u)"
  using is_digit_not_sign [OF fmt_dec_hd [of u]]
  by (simp_all add: literal_digits_def literal_negative_def)

lemma unat_neg_sint:
  fixes v :: int64
  assumes "sint v < 0"
  shows "int (unat (- v)) = - sint v"
proof -
  have lo: "- (2 ^ 63) \<le> sint v"
    using sint_ge [of v] by simp
  have "- v = word_of_int (- sint v)"
    by simp
  then have "uint (- v) = (- sint v) mod 2 ^ 64"
    using uint_word_of_int [where 'a = 64, of "- sint v"] by simp
  also have "\<dots> = - sint v"
    using lo assms by simp
  finally show ?thesis by simp
qed

lemma unat_nonneg_sint:
  fixes v :: int64
  assumes "\<not> sint v < 0"
  shows "int (unat v) = sint v"
proof -
  have hi: "sint v < 2 ^ 63"
    using sint_lt [of v] by simp
  have "v = word_of_int (sint v)"
    by simp
  then have "uint v = (sint v) mod 2 ^ 64"
    using uint_word_of_int [where 'a = 64, of "sint v"] by simp
  also have "\<dots> = sint v"
    using hi assms by simp
  finally show ?thesis by simp
qed

lemma fmt_d_neg: "sint v < 0 \<Longrightarrow> fmt_d v = CHR ''-'' # fmt_dec (unat (- v))"
  by (simp add: fmt_d_def Let_def del: fmt_dec.simps)

lemma fmt_d_nonneg: "\<not> sint v < 0 \<Longrightarrow> fmt_d v = fmt_dec (unat v)"
  by (simp add: fmt_d_def Let_def del: fmt_dec.simps)

lemma fmt_d_valid: "valid_int64 (fmt_d v)" and fmt_d_value: "int64_value (fmt_d v) = sint v"
proof -
  have lo: "- (2 ^ 63) \<le> sint v" and hi: "sint v < 2 ^ 63"
    using sint_ge [of v] sint_lt [of v] by simp_all
  show "valid_int64 (fmt_d v)"
  proof (cases "sint v < 0")
    case True
    then have "int (unat (- v)) \<le> 2 ^ 63"
      using unat_neg_sint [OF True] lo by simp
    then have "unat (- v) \<le> 2 ^ 63"
      by (metis of_nat_le_iff of_nat_numeral of_nat_power)
    then show ?thesis
      using fmt_dec_digits [of "unat (- v)"] fmt_dec_nonempty [of "unat (- v)"]
      unfolding fmt_d_neg [OF True]
      by (simp add: valid_int64_def literal_digits_def literal_negative_def fmt_dec_value
          del: fmt_dec.simps)
  next
    case False
    then have "int (unat v) < 2 ^ 63"
      using unat_nonneg_sint [OF False] hi by simp
    then have "unat v < 2 ^ 63"
      by (metis of_nat_less_iff of_nat_numeral of_nat_power)
    then show ?thesis
      using fmt_dec_digits [of "unat v"] fmt_dec_nonempty [of "unat v"]
      unfolding fmt_d_nonneg [OF False]
      by (simp add: valid_int64_def fmt_dec_literal fmt_dec_value del: fmt_dec.simps)
  qed
  show "int64_value (fmt_d v) = sint v"
  proof (cases "sint v < 0")
    case True
    show ?thesis
      using unat_neg_sint [OF True]
      unfolding fmt_d_neg [OF True]
      by (simp add: int64_value_def literal_digits_def literal_negative_def fmt_dec_value
          del: fmt_dec.simps)
  next
    case False
    show ?thesis
      using unat_nonneg_sint [OF False]
      unfolding fmt_d_nonneg [OF False]
      by (simp add: int64_value_def fmt_dec_literal fmt_dec_value del: fmt_dec.simps)
  qed
qed

lemma ParseInt_fmt_d: "strconv_ParseInt (fmt_d v) = (Inr v :: 'a error + int64)"
  using strconv_ParseInt_iff [of "fmt_d v" v, where 'a = 'a] fmt_d_valid [of v] fmt_d_value [of v]
  by simp

lemma fmt_d_no_comma: "CHR '','' \<notin> set (fmt_d v)"
proof -
  have "\<And>u. CHR '','' \<notin> set (fmt_dec u)"
  proof
    fix u assume "CHR '','' \<in> set (fmt_dec u)"
    then have "is_digit CHR '',''"
      using fmt_dec_digits [of u] by (simp add: list_all_iff del: fmt_dec.simps)
    then show False by (simp add: is_digit_def)
  qed
  then show ?thesis
    by (simp add: fmt_d_def Let_def del: fmt_dec.simps)
qed

text \<open>
  \<open>strings_Split\<close> is \<open>strings.Split\<close>: one part more than there are separators,
  no separator inside a part, and the parts joined by the separator give the string.
\<close>

lemma Split_nonempty: "strings_Split s sep \<noteq> []"
  by (induction s) (auto split: list.splits)

lemma Split_length: "length (strings_Split s sep) = Suc (count_list s sep)"
  by (induction s) (auto split: list.splits simp: Split_nonempty)

lemma Split_parts: "p \<in> set (strings_Split s sep) \<Longrightarrow> sep \<notin> set p"
  by (induction s arbitrary: p) (auto split: list.splits if_splits)

lemma Split_join: "concat (map ((#) sep) (strings_Split s sep)) = sep # s"
  by (induction s) (auto split: list.splits simp: Split_nonempty)

lemma Split_no_sep: "sep \<notin> set a \<Longrightarrow> strings_Split a sep = [a]"
  by (induction a) auto

lemma Split_append:
  "sep \<notin> set a \<Longrightarrow> strings_Split (a @ sep # rest) sep = a # strings_Split rest sep"
  by (induction a) auto

section \<open>Lemmas about the deletion of separators\<close>

text \<open>
  Every encoded rune is one ASCII byte or a multi-byte sequence; an occurrence of a
  multi-byte sequence cannot start inside ASCII text or inside another encoded rune. So
  on ASCII text with copies of one separator inserted, \<open>replaceCharacters\<close> deletes
  the copies and the ASCII separators and nothing else.
\<close>

lemma is_digit_ascii: "is_digit c \<Longrightarrow> is_ascii c"
  by (simp add: is_digit_def is_ascii_def)

lemma encoderune_unit: "utf8_unit (encoderune r)"
  by (auto simp: utf8_unit_def multi_byte_def encoderune_def encoderune3_def is_ascii_def
      continuation_def continuation_count_def rune1Max_def rune2Max_def rune3Max_def maxRune_def
      surrogateMin_def surrogateMax_def runeError_def)

lemma replace_loop_single: "replace_loop s [b] [] = filter (\<lambda>c. c \<noteq> b) s"
  by (induction s) auto

lemma replace_loop_skip:
  "p \<noteq> [] \<Longrightarrow> hd p \<notin> set cs \<Longrightarrow> replace_loop (cs @ rest) p new = cs @ replace_loop rest p new"
proof (induction cs)
  case Nil
  then show ?case by simp
next
  case (Cons c cs)
  have "take (length p) (c # cs @ rest) \<noteq> p"
  proof
    assume "take (length p) (c # cs @ rest) = p"
    then have "hd p = c" using Cons.prems(1) by (cases p) auto
    then show False using Cons.prems(2) by simp
  qed
  then show ?case using Cons by simp
qed

lemma replace_loop_match:
  "e \<noteq> [] \<Longrightarrow> replace_loop (e @ rest) e new = new @ replace_loop rest e new"
  by (cases e) auto


lemma multi_byte_not_ascii:
  assumes "multi_byte e"
  shows "e \<noteq> []" and "\<not> is_ascii (hd e)" and "c \<in> set e \<Longrightarrow> \<not> is_ascii c"
    and "c \<in> set (tl e) \<Longrightarrow> (of_char c :: nat) < 0xC0" and "2 \<le> length e"
proof -
  show ne: "e \<noteq> []" using assms by (simp add: multi_byte_def)
  show hd: "\<not> is_ascii (hd e)" using assms by (simp add: multi_byte_def is_ascii_def)
  have tl: "\<not> is_ascii c \<and> (of_char c :: nat) < 0xC0" if "c \<in> set (tl e)" for c
    using assms that by (auto simp: multi_byte_def is_ascii_def list_all_iff continuation_def)
  show "c \<in> set e \<Longrightarrow> \<not> is_ascii c"
    using ne hd tl by (cases e) auto
  show "c \<in> set (tl e) \<Longrightarrow> (of_char c :: nat) < 0xC0"
    using tl by simp
  show "2 \<le> length e"
    using assms by (cases e) (auto simp: multi_byte_def continuation_count_def)
qed

lemma multi_byte_same_lead:
  "multi_byte e \<Longrightarrow> multi_byte p \<Longrightarrow> hd p = hd e \<Longrightarrow> length p = length e"
  by (cases e; cases p) (auto simp: multi_byte_def)

lemma place_simps [simp]:
  "place e [] = []"
  "place e (Some d # ts) = d # place e ts"
  "place e (None # ts) = e @ place e ts"
  by (simp_all add: place_def)

lemma kept_simps [simp]:
  "kept [] = []"
  "kept (Some d # ts) = d # kept ts"
  "kept (None # ts) = kept ts"
  by (simp_all add: kept_def)

lemma inserted_tokens:
  "inserted e n s \<Longrightarrow> \<exists>ts. s = place e ts \<and> n = kept ts"
proof (induction e n s rule: inserted.induct)
  case (1 e n)
  then have "[] = place e [] \<and> n = kept []" by simp
  then show ?case by blast
next
  case (2 e n y ys)
  from "2.prems" consider
    (keep) "n \<noteq> []" "hd n = y" "inserted e (tl n) ys"
    | (sep) "e \<noteq> []" "take (length e) (y # ys) = e" "inserted e n (drop (length e - 1) ys)"
    by auto
  then show ?case
  proof cases
    case keep
    then obtain ts where ts: "ys = place e ts" "tl n = kept ts"
      using "2.IH"(1) by blast
    have "y # ys = place e (Some y # ts) \<and> n = kept (Some y # ts)"
      using ts keep by (cases n) auto
    then show ?thesis by blast
  next
    case sep
    then obtain ts where ts: "drop (length e - 1) ys = place e ts" "n = kept ts"
      using "2.IH"(2) by blast
    have "drop (length e) (y # ys) = drop (length e - 1) ys"
      using sep(1) by (cases e) auto
    then have "y # ys = e @ drop (length e - 1) ys"
      using sep(2) append_take_drop_id [of "length e" "y # ys"] by simp
    then have "y # ys = place e (None # ts) \<and> n = kept (None # ts)"
      using ts by simp
    then show ?thesis by blast
  qed
qed

lemma place_filter:
  "b \<notin> set e \<Longrightarrow>
   filter (\<lambda>c. c \<noteq> b) (place e ts) = place e (filter (\<lambda>t. t \<noteq> Some b) ts)"
proof (induction ts)
  case Nil
  then show ?case by simp
next
  case (Cons t ts)
  have "filter (\<lambda>c. c \<noteq> b) e = e"
    using Cons.prems by (auto simp: filter_id_conv)
  then show ?case using Cons by (cases t) auto
qed

lemma kept_filter:
  "kept (filter (\<lambda>t. t \<noteq> Some b) ts) = filter (\<lambda>c. c \<noteq> b) (kept ts)"
proof (induction ts)
  case Nil
  then show ?case by simp
next
  case (Cons t ts)
  then show ?case by (cases t) auto
qed

lemma replace_loop_ascii:
  assumes "multi_byte p" and "list_all is_ascii x"
  shows "replace_loop x p new = x"
proof -
  have "hd p \<notin> set x"
    using assms multi_byte_not_ascii(2) [OF assms(1)] by (auto simp: list_all_iff)
  then show ?thesis
    using replace_loop_skip [of p x "[]" new] multi_byte_not_ascii(1) [OF assms(1)] by simp
qed

lemma replace_loop_place_other:
  assumes e: "multi_byte e" and p: "multi_byte p" and ne: "p \<noteq> e"
    and asc: "list_all is_ascii (kept ts)"
  shows "replace_loop (place e ts) p new = place e ts"
  using asc
proof (induction ts)
  case Nil
  then show ?case by simp
next
  case (Cons t ts)
  note pne = multi_byte_not_ascii(1) [OF p]
  show ?case
  proof (cases t)
    case (Some d)
    then have "is_ascii d" and rest: "list_all is_ascii (kept ts)"
      using Cons.prems by simp_all
    then have "hd p \<notin> set [d]"
      using multi_byte_not_ascii(2) [OF p] by auto
    then have "replace_loop ([d] @ place e ts) p new = [d] @ replace_loop (place e ts) p new"
      using replace_loop_skip [OF pne] by blast
    then show ?thesis
      using Some Cons.IH [OF rest] by simp
  next
    case None
    then have rest: "list_all is_ascii (kept ts)"
      using Cons.prems by simp
    obtain l cs where lcs: "e = l # cs"
      using multi_byte_not_ascii(1) [OF e] by (cases e) auto
    have nomatch: "take (length p) (l # cs @ place e ts) \<noteq> p"
    proof
      assume m: "take (length p) (l # cs @ place e ts) = p"
      then have "hd p = l" using pne by (cases p) auto
      then have "length p = length e"
        using multi_byte_same_lead [OF e p] lcs by simp
      then have "take (length p) (e @ place e ts) = e"
        by simp
      then show False using m ne lcs by simp
    qed
    have "hd p \<notin> set cs"
    proof
      assume "hd p \<in> set cs"
      then have "(of_char (hd p) :: nat) < 0xC0"
        using multi_byte_not_ascii(4) [OF e] lcs by simp
      then show False using p by (simp add: multi_byte_def)
    qed
    then have "replace_loop (cs @ place e ts) p new = cs @ replace_loop (place e ts) p new"
      using replace_loop_skip [OF pne] by blast
    then show ?thesis
      using None lcs nomatch Cons.IH [OF rest] by simp
  qed
qed

lemma replace_loop_place_self:
  assumes e: "multi_byte e" and asc: "list_all is_ascii (kept ts)"
  shows "replace_loop (place e ts) e [] = kept ts"
  using asc
proof (induction ts)
  case Nil
  then show ?case by simp
next
  case (Cons t ts)
  note ene = multi_byte_not_ascii(1) [OF e]
  show ?case
  proof (cases t)
    case (Some d)
    then have "is_ascii d" and rest: "list_all is_ascii (kept ts)"
      using Cons.prems by simp_all
    then have "hd e \<notin> set [d]"
      using multi_byte_not_ascii(2) [OF e] by auto
    then have "replace_loop ([d] @ place e ts) e [] = [d] @ replace_loop (place e ts) e []"
      using replace_loop_skip [OF ene] by blast
    then show ?thesis
      using Some Cons.IH [OF rest] by simp
  next
    case None
    then have rest: "list_all is_ascii (kept ts)"
      using Cons.prems by simp
    show ?thesis
      using None replace_loop_match [OF ene, of "place e ts" "[]"] Cons.IH [OF rest] by simp
  qed
qed


lemma encoderune_ascii: "r \<le> 0x7F \<Longrightarrow> encoderune r = [char_of r]"
  by (simp add: encoderune_def rune1Max_def)

lemma encoderune_multi: "0x7F < r \<Longrightarrow> multi_byte (encoderune r)"
  using encoderune_unit [of r]
  by (auto simp: utf8_unit_def encoderune_def encoderune3_def rune1Max_def)

lemma strings_ReplaceAll_delete:
  "old \<noteq> [] \<Longrightarrow> strings_ReplaceAll s old [] = replace_loop s old []"
  by (auto simp: strings_ReplaceAll_def)

lemma ascii_char_of: "is_ascii c \<Longrightarrow> r \<le> 0x7F \<Longrightarrow> (c \<noteq> char_of r) = ((of_char c :: nat) \<noteq> r)"
  by (auto simp: is_ascii_def)

lemma filter_drop_rune:
  assumes asc: "list_all is_ascii x"
    and r: "r \<le> 0x7F \<longrightarrow> y = filter (\<lambda>c. c \<noteq> char_of r) x" "0x7F < r \<longrightarrow> y = x"
  shows "filter (\<lambda>c. (of_char c :: nat) \<notin> set rs) y = filter (\<lambda>c. of_char c \<notin> set (r # rs)) x"
proof (cases "r \<le> 0x7F")
  case True
  then have "y = filter (\<lambda>c. (of_char c :: nat) \<noteq> r) x"
    using r(1) asc ascii_char_of [OF _ True] by (auto simp: list_all_iff intro: filter_cong)
  then show ?thesis by (auto intro: filter_cong)
next
  case False
  then have "(of_char c :: nat) \<noteq> r" if "c \<in> set x" for c
    using asc that by (auto simp: list_all_iff is_ascii_def)
  then show ?thesis using r(2) False by (auto intro: filter_cong)
qed

lemma replace_each_ascii:
  "list_all is_ascii x \<Longrightarrow> replace_each x rs [] = filter (\<lambda>c. (of_char c :: nat) \<notin> set rs) x"
proof (induction rs arbitrary: x)
  case Nil
  then show ?case by simp
next
  case (Cons r rs)
  define y where "y = strings_ReplaceAll x (encoderune r) []"
  have y1: "r \<le> 0x7F \<longrightarrow> y = filter (\<lambda>c. c \<noteq> char_of r) x"
    by (simp add: y_def encoderune_ascii strings_ReplaceAll_delete replace_loop_single)
  have y2: "0x7F < r \<longrightarrow> y = x"
    using replace_loop_ascii [OF encoderune_multi Cons.prems] multi_byte_not_ascii(1) [OF encoderune_multi]
    by (simp add: y_def strings_ReplaceAll_delete)
  have "list_all is_ascii y"
    using y1 y2 Cons.prems by (cases "r \<le> 0x7F") (auto simp: list_all_iff)
  then have "replace_each y rs [] = filter (\<lambda>c. (of_char c :: nat) \<notin> set rs) y"
    by (rule Cons.IH)
  then show ?case
    using filter_drop_rune [OF Cons.prems y1 y2] by (simp add: y_def)
qed

lemma replace_each_place:
  assumes e: "multi_byte e"
  shows "e \<in> encoderune ` set rs \<Longrightarrow> list_all is_ascii (kept ts) \<Longrightarrow>
    replace_each (place e ts) rs [] = filter (\<lambda>c. (of_char c :: nat) \<notin> set rs) (kept ts)"
proof (induction rs arbitrary: ts)
  case Nil
  then show ?case by simp
next
  case (Cons r rs)
  note asc = Cons.prems(2)
  show ?case
  proof (cases "r \<le> 0x7F")
    case True
    have notin: "char_of r \<notin> set e"
    proof
      assume "char_of r \<in> set e"
      then have "\<not> is_ascii (char_of r :: char)"
        using multi_byte_not_ascii(3) [OF e] by blast
      then show False using True by (simp add: is_ascii_def)
    qed
    have "encoderune r \<noteq> e"
      using True multi_byte_not_ascii(5) [OF e] by (auto simp: encoderune_ascii)
    then have mem: "e \<in> encoderune ` set rs"
      using Cons.prems(1) by auto
    let ?ts = "filter (\<lambda>t. t \<noteq> Some (char_of r)) ts"
    have step: "strings_ReplaceAll (place e ts) (encoderune r) [] = place e ?ts"
      using True place_filter [OF notin]
      by (simp add: encoderune_ascii strings_ReplaceAll_delete replace_loop_single)
    have k: "kept ?ts = filter (\<lambda>c. c \<noteq> char_of r) (kept ts)"
      by (rule kept_filter)
    then have "list_all is_ascii (kept ?ts)"
      using asc by (auto simp: list_all_iff)
    then have "replace_each (place e ?ts) rs [] = filter (\<lambda>c. (of_char c :: nat) \<notin> set rs) (kept ?ts)"
      using Cons.IH [OF mem] by blast
    then show ?thesis
      using step k filter_drop_rune [OF asc, of r "kept ?ts" rs] True by simp
  next
    case False
    then have big: "0x7F < r" by simp
    note m = encoderune_multi [OF big]
    note ne = multi_byte_not_ascii(1) [OF m]
    show ?thesis
    proof (cases "encoderune r = e")
      case True
      have "strings_ReplaceAll (place e ts) (encoderune r) [] = kept ts"
        using replace_loop_place_self [OF e asc] ne True by (simp add: strings_ReplaceAll_delete)
      then show ?thesis
        using replace_each_ascii [OF asc, of rs] filter_drop_rune [OF asc, of r "kept ts" rs] big
        by simp
    next
      case ne2: False
      then have mem: "e \<in> encoderune ` set rs"
        using Cons.prems(1) by auto
      have "strings_ReplaceAll (place e ts) (encoderune r) [] = place e ts"
        using replace_loop_place_other [OF e m ne2 asc] ne by (simp add: strings_ReplaceAll_delete)
      then show ?thesis
        using Cons.IH [OF mem asc] filter_drop_rune [OF asc, of r "kept ts" rs] big
        by simp
    qed
  qed
qed

lemma filter_place_single:
  "\<not> P b \<Longrightarrow> filter P (place [b] ts) = filter P (kept ts)"
proof (induction ts)
  case Nil
  then show ?case by simp
next
  case (Cons t ts)
  then show ?case by (cases t) auto
qed

lemma set_place_single: "set (place [b] ts) \<subseteq> insert b (set (kept ts))"
proof (induction ts)
  case Nil
  then show ?case by simp
next
  case (Cons t ts)
  then show ?case by (cases t) auto
qed

lemma replaceCharacters_ascii:
  "list_all is_ascii n \<Longrightarrow>
   replaceCharacters n seps [] = filter (\<lambda>b. (of_char b :: nat) \<notin> set (range_string seps)) n"
  by (simp add: replaceCharacters_def replace_each_ascii)

lemma replaceCharacters_inserted:
  assumes c: "c \<in> set (range_string seps)" and asc: "list_all is_ascii n"
    and ins: "inserted (encoderune c) n s"
  shows "replaceCharacters s seps [] = replaceCharacters n seps []"
proof -
  obtain ts where ts: "s = place (encoderune c) ts" "n = kept ts"
    using inserted_tokens [OF ins] by blast
  let ?rs = "range_string seps"
  have "replace_each s ?rs [] = filter (\<lambda>b. (of_char b :: nat) \<notin> set ?rs) n"
  proof (cases "c \<le> 0x7F")
    case True
    then have e: "encoderune c = [char_of c]"
      by (rule encoderune_ascii)
    have "is_ascii (char_of c :: char)"
      using True by (simp add: is_ascii_def)
    then have "list_all is_ascii s"
      using set_place_single [of "char_of c" ts] asc ts e by (auto simp: list_all_iff)
    then have "replace_each s ?rs [] = filter (\<lambda>b. (of_char b :: nat) \<notin> set ?rs) s"
      by (rule replace_each_ascii)
    moreover have "\<not> (of_char (char_of c :: char) :: nat) \<notin> set ?rs"
      using True c by simp
    ultimately show ?thesis
      using filter_place_single [of "\<lambda>b. (of_char b :: nat) \<notin> set ?rs" "char_of c" ts] ts e
      by simp
  next
    case False
    then have m: "multi_byte (encoderune c)"
      using encoderune_multi [of c] by simp
    show ?thesis
      using replace_each_place [OF m, of ?rs ts] c asc ts by auto
  qed
  then show ?thesis
    using replaceCharacters_ascii [OF asc, of seps] by (simp add: replaceCharacters_def)
qed

section \<open>Lemmas about the interval converters\<close>

lemma valid_int64_range:
  assumes "valid_int64 s"
  shows "- (2 ^ 63) \<le> int64_value s" and "int64_value s < 2 ^ 63"
proof -
  define m where "m = decimal_value 0 (literal_digits s)"
  have a: "literal_negative s \<Longrightarrow> int m \<le> 2 ^ 63"
  proof -
    assume "literal_negative s"
    then have "m \<le> 2 ^ 63" using assms by (simp add: valid_int64_def m_def)
    then show ?thesis by (metis of_nat_le_iff of_nat_numeral of_nat_power)
  qed
  have b: "\<not> literal_negative s \<Longrightarrow> int m < 2 ^ 63"
  proof -
    assume "\<not> literal_negative s"
    then have "m < 2 ^ 63" using assms by (simp add: valid_int64_def m_def)
    then show ?thesis by (metis of_nat_less_iff of_nat_numeral of_nat_power)
  qed
  show "- (2 ^ 63) \<le> int64_value s"
    using a b by (cases "literal_negative s") (simp_all add: int64_value_def m_def [symmetric])
  show "int64_value s < 2 ^ 63"
    using a b by (cases "literal_negative s") (simp_all add: int64_value_def m_def [symmetric])
qed

lemma sint_int64_value:
  assumes "valid_int64 s"
  shows "sint (word_of_int (int64_value s) :: int64) = int64_value s"
  using valid_int64_range [OF assms]
  by (simp add: sint_sbintrunc' signed_take_bit_int_eq_self)

lemma parseParts_iff:
  "parseParts parts = Inr ns \<longleftrightarrow>
     list_all valid_int64 parts \<and> ns = map (\<lambda>p. word_of_int (int64_value p)) parts"
proof (induction parts arbitrary: ns)
  case Nil
  show ?case by auto
next
  case (Cons p ps)
  show ?case
  proof (cases "strconv_ParseInt p :: string error + int64")
    case (Inl e)
    then have "\<not> valid_int64 p"
      using strconv_ParseInt_iff [of p, where 'a = string] by auto
    with Inl show ?thesis by simp
  next
    case (Inr n)
    then have p: "valid_int64 p" "n = word_of_int (int64_value p)"
      using strconv_ParseInt_iff [of p n, where 'a = string] by auto
    show ?thesis
      using Inr p Cons.IH by (cases "parseParts ps") auto
  qed
qed

lemma parseParts_error: "parseParts parts = Inl e \<Longrightarrow> e = ErrUnexpectedIntervalFmt"
proof (induction parts)
  case Nil
  then show ?case by simp
next
  case (Cons p ps)
  then show ?case
    by (cases "strconv_ParseInt p :: string error + int64"; cases "parseParts ps") auto
qed

lemma adjust_code_iff:
  assumes "valid_int64 s"
  shows "(word_of_int (int64_value s) :: int64) = 0 \<longleftrightarrow> int64_value s = 0"
    and "(word_of_int (int64_value s) :: int64) = 1 \<longleftrightarrow> int64_value s = 1"
    and "(word_of_int (int64_value s) :: int64) = 2 \<longleftrightarrow> int64_value s = 2"
proof -
  have s: "sint (word_of_int (int64_value s) :: int64) = int64_value s"
    by (rule sint_int64_value [OF assms])
  have k: "(word_of_int (int64_value s) :: int64) = k \<longleftrightarrow> int64_value s = sint k" for k
    using s by auto
  show "(word_of_int (int64_value s) :: int64) = 0 \<longleftrightarrow> int64_value s = 0"
    using k [of 0] by simp
  show "(word_of_int (int64_value s) :: int64) = 1 \<longleftrightarrow> int64_value s = 1"
    using k [of 1] by simp
  show "(word_of_int (int64_value s) :: int64) = 2 \<longleftrightarrow> int64_value s = 2"
    using k [of 2] by simp
qed

lemma Convert_valid:
  assumes "length parts = 9" and "list_all valid_int64 parts"
    and "parts = strings_Split src CHR '',''"
  shows "StringToIntervalConverter_Convert src =
     (if int64_value (parts ! 8) \<in> {0, 1, 2} then Inr (IntervalV (interval_of_parts parts))
      else Inl ErrUnexpectedIntervalFmt)"
proof -
  define ns where "ns = map (\<lambda>p. word_of_int (int64_value p) :: int64) parts"
  have pp: "parseParts parts = Inr ns"
    using assms(2) parseParts_iff [of parts ns] by (simp add: ns_def)
  have nth: "ns ! i = word_of_int (int64_value (parts ! i))" if "i < 9" for i
    using that assms(1) by (simp add: ns_def)
  have v8: "valid_int64 (parts ! 8)"
    using assms(1,2) by (simp add: list_all_length)
  have adj: "(ns ! 8 \<noteq> NoneAdjust \<and> ns ! 8 \<noteq> ExcessAdjust \<and> ns ! 8 \<noteq> LastAdjust)
      \<longleftrightarrow> int64_value (parts ! 8) \<notin> {0, 1, 2}"
    using adjust_code_iff [OF v8]
    by (simp add: nth NoneAdjust_def ExcessAdjust_def LastAdjust_def)
  show ?thesis
    unfolding StringToIntervalConverter_Convert_def assms(3) [symmetric] Let_def
    using assms(1) pp adj
    by (simp add: intervalFieldsNumber_def nth interval_of_parts_def)
qed

lemma Convert_invalid:
  assumes "\<not> (length parts = 9 \<and> list_all valid_int64 parts)"
    and "parts = strings_Split src CHR '',''"
  shows "StringToIntervalConverter_Convert src = Inl ErrUnexpectedIntervalFmt"
proof (cases "length parts = 9")
  case False
  then show ?thesis
    unfolding StringToIntervalConverter_Convert_def assms(2) [symmetric] Let_def
    by (simp add: intervalFieldsNumber_def)
next
  case True
  then have "\<not> list_all valid_int64 parts" using assms(1) by simp
  then obtain e where "parseParts parts = Inl e"
    using parseParts_iff [of parts] by (cases "parseParts parts") auto
  then have "parseParts parts = Inl ErrUnexpectedIntervalFmt"
    using parseParts_error by blast
  then show ?thesis
    unfolding StringToIntervalConverter_Convert_def assms(2) [symmetric] Let_def
    using True by (simp add: intervalFieldsNumber_def)
qed

lemma Split_interval_string:
  "strings_Split (fmt_d a @ '','' @ fmt_d b @ '','' @ fmt_d c @ '','' @ fmt_d d @ '','' @
       fmt_d e @ '','' @ fmt_d f @ '','' @ fmt_d g @ '','' @ fmt_d h @ '','' @ fmt_d i) CHR '',''
   = [fmt_d a, fmt_d b, fmt_d c, fmt_d d, fmt_d e, fmt_d f, fmt_d g, fmt_d h, fmt_d i]"
  by (simp add: Split_append Split_no_sep fmt_d_no_comma)

lemma parseParts_fmt_d: "parseParts (map fmt_d ns) = Inr ns"
  by (induction ns) (simp_all add: ParseInt_fmt_d)

lemma Convert_interval_string:
  assumes "IntervalToStringConverter_Convert x = Inr s"
  shows "strings_Split s CHR '','' = map fmt_d (interval_fields x)"
    and "StringToIntervalConverter_Convert s =
      (if Adjust x = NoneAdjust \<or> Adjust x = ExcessAdjust \<or> Adjust x = LastAdjust
       then Inr (IntervalV x) else Inl ErrUnexpectedIntervalFmt)"
proof -
  have s: "s = fmt_d (Year x) @ '','' @ fmt_d (Month x) @ '','' @
          fmt_d (Week x) @ '','' @ fmt_d (Day x) @ '','' @
          fmt_d (Hour x) @ '','' @ fmt_d (Min x) @ '','' @
          fmt_d (Sec x) @ '','' @ fmt_d (Nsec x) @ '','' @
          fmt_d (Adjust x)"
    using assms by (simp add: IntervalToStringConverter_Convert_def)
  show sp: "strings_Split s CHR '','' = map fmt_d (interval_fields x)"
    unfolding s Split_interval_string by (simp add: interval_fields_def)
  have pp: "parseParts (strings_Split s CHR '','') = Inr (interval_fields x)"
    unfolding sp by (rule parseParts_fmt_d)
  have len: "length (strings_Split s CHR '','') = 9"
    unfolding sp by (simp add: interval_fields_def)
  show "StringToIntervalConverter_Convert s =
      (if Adjust x = NoneAdjust \<or> Adjust x = ExcessAdjust \<or> Adjust x = LastAdjust
       then Inr (IntervalV x) else Inl ErrUnexpectedIntervalFmt)"
    unfolding StringToIntervalConverter_Convert_def Let_def pp len
    by (simp add: intervalFieldsNumber_def interval_fields_def)
qed

section \<open>Lemmas about the mapper, the assembler and the combinators\<close>

lemma Map_loop_convert_each:
  "i + length tuple \<le> length (converters m) \<Longrightarrow>
   Map_loop m i tuple = convert_each (take (length tuple) (drop i (converters m))) tuple"
proof (induction tuple arbitrary: i)
  case Nil
  show ?case by simp
next
  case (Cons x xs)
  then have i: "i < length (converters m)" by simp
  then have d: "drop i (converters m) = (converters m ! i) # drop (Suc i) (converters m)"
    by (simp add: Cons_nth_drop_Suc)
  have ih: "Map_loop m (Suc i) xs = convert_each (take (length xs) (drop (Suc i) (converters m))) xs"
    using Cons.prems by (intro Cons.IH) simp
  show ?case
    using i by (simp add: d ih split: sum.splits)
qed

lemma Map_loop_default:
  "defaultConverter m = Some d \<Longrightarrow> length tuple \<le> length (converters m) - i + k \<Longrightarrow>
   Map_loop m i tuple = convert_each (drop i (converters m) @ replicate k d) tuple"
proof (induction tuple arbitrary: i k)
  case Nil
  show ?case by simp
next
  case (Cons x xs)
  show ?case
  proof (cases "i < length (converters m)")
    case True
    then have dr: "drop i (converters m) = (converters m ! i) # drop (Suc i) (converters m)"
      by (simp add: Cons_nth_drop_Suc)
    have "Map_loop m (Suc i) xs = convert_each (drop (Suc i) (converters m) @ replicate k d) xs"
      using Cons.prems by (intro Cons.IH) simp_all
    then show ?thesis
      using True by (simp add: dr split: sum.splits)
  next
    case False
    then obtain k' where k: "k = Suc k'"
      using Cons.prems(2) by (cases k) simp_all
    have "Map_loop m (Suc i) xs = convert_each (drop (Suc i) (converters m) @ replicate k' d) xs"
      using Cons.prems k False by (intro Cons.IH) simp_all
    then show ?thesis
      using False Cons.prems(1) by (simp add: k split: sum.splits)
  qed
qed

lemma convert_each_error:
  "convert_each convs xs = Inl e \<Longrightarrow>
   \<exists>i. i < length xs \<and> i < length convs \<and> (convs ! i) (xs ! i) = Inl e"
proof (induction convs xs rule: convert_each.induct)
  case (1 conv convs x xs)
  show ?case
  proof (cases "conv x")
    case (Inl a)
    then have "a = e" using 1 by simp
    then show ?thesis using Inl by (intro exI [of _ 0]) simp
  next
    case (Inr r)
    then have "convert_each convs xs = Inl e"
      using "1.prems" by (simp split: sum.splits)
    then obtain i where "i < length xs" "i < length convs" "(convs ! i) (xs ! i) = Inl e"
      using "1.IH" [OF Inr] by blast
    then show ?thesis by (intro exI [of _ "Suc i"]) simp
  qed
qed simp_all

lemmas TypeName_defs = TypeBoolean_def TypeString_def TypeInteger_def TypeUnsigned_def
  TypeDouble_def TypeNumber_def TypeDecimal_def TypeDatetime_def TypeUUID_def TypeArray_def
  TypeMap_def TypeVarbinary_def TypeScalar_def TypeAny_def TypeInterval_def

lemma GetConverterByType_known:
  "typ \<in> set TypeNames \<Longrightarrow> \<exists>conv. GetConverterByType fac typ = Inr conv"
  by (auto simp: GetConverterByType_def TypeNames_def)

lemma GetConverterByType_unknown:
  "typ \<notin> set TypeNames \<Longrightarrow> GetConverterByType fac typ = Inl (UnexpectedType typ)"
  by (simp add: GetConverterByType_def TypeNames_def)

lemma MakeTypeToTTConverters_known:
  "list_all known_type spaceFmt \<Longrightarrow>
   \<exists>convs. MakeTypeToTTConverters fac spaceFmt = Inr convs \<and> length convs = length spaceFmt"
proof (induction spaceFmt)
  case Nil
  show ?case by simp
next
  case (Cons f fs)
  then obtain conv where c: "GetConverterByType fac (Type f) = Inr conv"
    using GetConverterByType_known [of "Type f" fac] by (auto simp: known_type_def)
  obtain convs where cs: "MakeTypeToTTConverters fac fs = Inr convs" "length convs = length fs"
    using Cons by auto
  show ?case
    by (simp add: c cs Let_def)
qed

lemma MakeTypeToTTConverters_fail_fast:
  assumes "list_all known_type pre" and "\<not> known_type bad"
  shows "MakeTypeToTTConverters fac (pre @ bad # rest) = Inl (UnexpectedType (Type bad))"
  using assms(1)
proof (induction pre)
  case Nil
  show ?case
    using assms(2) GetConverterByType_unknown [of "Type bad" fac]
    by (simp add: known_type_def Let_def)
next
  case (Cons f fs)
  then obtain conv where c: "GetConverterByType fac (Type f) = Inr conv"
    using GetConverterByType_known [of "Type f" fac] by (auto simp: known_type_def)
  show ?case
    using Cons by (simp add: c Let_def)
qed

lemma MakeSequenceConverter_succeeds:
  "conv \<in> set convs \<Longrightarrow> conv src = Inr v \<Longrightarrow> \<exists>w. MakeSequenceConverter convs src = Inr w"
proof (induction convs)
  case Nil
  then show ?case by simp
next
  case (Cons c cs)
  then show ?case
    by (cases "c src") auto
qed



section \<open>Lemmas about the JSON decoder\<close>

text \<open>
  The decoder reads the text of a value back, from any nesting depth that leaves room for
  the value and with any fuel above the length of the text.
\<close>

lemma skip_space_ws: "list_all is_space ws \<Longrightarrow> skip_space (ws @ s) = skip_space s"
  by (induction ws) (simp_all add: skip_space_def)

lemma skip_space_token: "\<not> is_space c \<Longrightarrow> skip_space (c # s) = c # s"
  by (simp add: skip_space_def)

lemma scan_string_plain: "plain s \<Longrightarrow> scan_string (s @ CHR 0x22 # rest) = JOk s rest"
  by (induction s) (auto simp: plain_def)

lemma scan_value_null: "scan_value (Suc f) d (''null'' @ rest) = JOk NilV rest"
  by (simp add: skip_space_token is_space_def scan_literal_def)

lemma scan_value_bool:
  "scan_value (Suc f) d ((if b then ''true'' else ''false'') @ rest) = JOk (BoolV b) rest"
  by (simp add: skip_space_token is_space_def scan_literal_def)

lemma scan_value_string:
  "plain s \<Longrightarrow> scan_value (Suc f) d (quoted s @ rest) = JOk (StringV s) rest"
  by (simp add: skip_space_token is_space_def quoted_def scan_string_plain)

lemma render_opens: "json_wf v \<Longrightarrow> \<exists>c cs. render v = c # cs \<and> opens_value c"
  by (cases v) (auto simp: opens_value_def quoted_def)

lemma opens_value_token:
  "opens_value c \<Longrightarrow> \<not> is_space c \<and> c \<noteq> CHR '']'' \<and> c \<noteq> CHR ''}''"
  by (auto simp: opens_value_def is_space_def)

lemma scan_value_empty_array:
  "d < maxNestingDepth \<Longrightarrow> scan_value (Suc f) d (''[]'' @ rest) = JOk (SliceV []) rest"
  by (simp add: skip_space_token is_space_def)

lemma scan_value_empty_object:
  "d < maxNestingDepth \<Longrightarrow> scan_value (Suc f) d (''{}'' @ rest) = JOk (MapV []) rest"
  by (simp add: skip_space_token is_space_def)

lemma scan_value_array:
  "d < maxNestingDepth \<Longrightarrow> opens_value c \<Longrightarrow>
   scan_value (Suc f) d (CHR ''['' # c # cs) = scan_elements f (Suc d) [] (c # cs)"
  using opens_value_token [of c] by (simp add: skip_space_token is_space_def)

lemma scan_value_object:
  "d < maxNestingDepth \<Longrightarrow>
   scan_value (Suc f) d (CHR ''{'' # CHR 0x22 # cs) = scan_members f (Suc d) [] (CHR 0x22 # cs)"
  by (simp add: skip_space_token is_space_def)

lemma foldr_max_ge: "x \<in> set xs \<Longrightarrow> g x \<le> foldr max (map g xs) (0::nat)"
  by (induction xs) auto

lemma map_put_fresh: "k \<notin> fst ` set acc \<Longrightarrow> map_put k v acc = acc @ [(k, v)]"
  by (auto simp: map_put_def filter_id_conv)

lemma scan_elements_render:
  "xs \<noteq> [] \<Longrightarrow> list_all json_wf xs \<Longrightarrow>
   length (join '','' (map render xs)) + 1 < f \<Longrightarrow>
   (\<forall>x \<in> set xs. \<forall>f rest. length (render x) < f \<longrightarrow>
       scan_value f d (render x @ rest) = JOk x rest) \<Longrightarrow>
   scan_elements f d acc (join '','' (map render xs) @ CHR '']'' # rest)
     = JOk (SliceV (acc @ xs)) rest"
proof (induction xs arbitrary: f acc)
  case Nil
  then show ?case by simp
next
  case (Cons x xs)
  obtain f' where f: "f = Suc f'"
    using Cons.prems(3) by (cases f) auto
  have val: "scan_value f' d (render x @ r) = JOk x r" if "length (render x) < f'" for r
    using Cons.prems(4) that by simp
  show ?case
  proof (cases xs)
    case Nil
    have "length (render x) < f'"
      using Cons.prems(3) f Nil by simp
    then have "scan_value f' d (render x @ CHR '']'' # rest) = JOk x (CHR '']'' # rest)"
      by (rule val)
    then show ?thesis
      using Nil f by (simp add: skip_space_token is_space_def)
  next
    case (Cons y ys)
    have len: "length (render x) < f'" "length (join '','' (map render xs)) + 1 < f'"
      using Cons.prems(3) f Cons by simp_all
    have "scan_value f' d (render x @ CHR '','' # join '','' (map render xs) @ CHR '']'' # rest)
        = JOk x (CHR '','' # join '','' (map render xs) @ CHR '']'' # rest)"
      using len(1) by (rule val)
    moreover have "scan_elements f' d (acc @ [x]) (join '','' (map render xs) @ CHR '']'' # rest)
        = JOk (SliceV ((acc @ [x]) @ xs)) rest"
      using Cons.IH [of f' "acc @ [x]"] Cons.prems(2,4) len(2) Cons by simp
    ultimately show ?thesis
      using Cons f by (simp add: skip_space_token is_space_def)
  qed
qed

lemma scan_members_render:
  "m \<noteq> [] \<Longrightarrow> distinct (map fst (acc @ m)) \<Longrightarrow>
   list_all (\<lambda>kv. plain (fst kv) \<and> json_wf (snd kv)) m \<Longrightarrow>
   length (join '','' (map member m)) + 1 < f \<Longrightarrow>
   (\<forall>kv \<in> set m. \<forall>f rest. length (render (snd kv)) < f \<longrightarrow>
       scan_value f d (render (snd kv) @ rest) = JOk (snd kv) rest) \<Longrightarrow>
   scan_members f d acc (join '','' (map member m) @ CHR ''}'' # rest)
     = JOk (MapV (acc @ m)) rest"
proof (induction m arbitrary: f acc)
  case Nil
  then show ?case by simp
next
  case (Cons kv m)
  obtain k v where kv: "kv = (k, v)" by (cases kv)
  obtain f' where f: "f = Suc f'"
    using Cons.prems(4) by (cases f) auto
  have pl: "plain k"
    using Cons.prems(3) kv by simp
  have fresh: "map_put k v acc = acc @ [(k, v)]"
    using Cons.prems(2) kv by (intro map_put_fresh) auto
  have val: "scan_value f' d (render v @ r) = JOk v r" if "length (render v) < f'" for r
    using Cons.prems(5) that kv by simp
  have key: "scan_string (k @ CHR 0x22 # r) = JOk k r" for r
    using pl by (rule scan_string_plain)
  show ?case
  proof (cases m)
    case Nil
    have "length (render v) < f'"
      using Cons.prems(4) f Nil kv by (simp add: member_def quoted_def)
    then have "scan_value f' d (render v @ CHR ''}'' # rest) = JOk v (CHR ''}'' # rest)"
      by (rule val)
    then show ?thesis
      using Nil f kv key fresh
      by (simp add: member_def quoted_def skip_space_token is_space_def)
  next
    case (Cons kv' m')
    have "length (member kv) = length k + length (render v) + 3"
      using kv by (simp add: member_def quoted_def)
    then have len: "length (render v) < f'" "length (join '','' (map member m)) + 1 < f'"
      using Cons.prems(4) f Cons by simp_all
    have "scan_value f' d (render v @ CHR '','' # join '','' (map member m) @ CHR ''}'' # rest)
        = JOk v (CHR '','' # join '','' (map member m) @ CHR ''}'' # rest)"
      using len(1) by (rule val)
    moreover have "scan_members f' d (acc @ [(k, v)]) (join '','' (map member m) @ CHR ''}'' # rest)
        = JOk (MapV ((acc @ [(k, v)]) @ m)) rest"
      using Cons.IH [of "acc @ [(k, v)]" f'] Cons.prems(2,3,5) len(2) Cons kv by simp
    moreover have "member kv = CHR 0x22 # k @ CHR 0x22 # CHR '':'' # render v"
      using kv by (simp add: member_def quoted_def)
    ultimately show ?thesis
      using Cons f kv key fresh
      by (simp add: skip_space_token is_space_def)
  qed
qed

lemma join_render_opens:
  "xs \<noteq> [] \<Longrightarrow> list_all json_wf xs \<Longrightarrow>
   \<exists>c cs. join '','' (map render xs) = c # cs \<and> opens_value c"
proof -
  assume "xs \<noteq> []" and wf: "list_all json_wf xs"
  then obtain x ys where xs: "xs = x # ys" by (cases xs) auto
  then obtain c cs where "render x = c # cs" "opens_value c"
    using render_opens [of x] wf by auto
  then show ?thesis
    using xs by (cases ys) auto
qed

lemma join_member_opens:
  "m \<noteq> [] \<Longrightarrow> \<exists>cs. join '','' (map member m) = CHR 0x22 # cs"
proof -
  assume "m \<noteq> []"
  then obtain kv ys where "m = kv # ys" by (cases m) auto
  then show ?thesis
    by (cases ys) (auto simp: member_def quoted_def)
qed

lemma scan_value_render:
  "json_wf v \<Longrightarrow> length (render v) < f \<Longrightarrow> nesting v + d \<le> maxNestingDepth \<Longrightarrow>
   scan_value f d (render v @ rest) = JOk v rest"
proof (induction v arbitrary: f d rest)
  case NilV
  then obtain f' where "f = Suc f'" by (cases f) auto
  then show ?case using scan_value_null [of f' d rest] by simp
next
  case (BoolV b)
  then obtain f' where "f = Suc f'" by (cases f) auto
  then show ?case using scan_value_bool [of f' d b rest] by simp
next
  case (StringV s)
  then obtain f' where "f = Suc f'" by (cases f) auto
  then show ?case using scan_value_string [of s f' d rest] StringV by simp
next
  case (SliceV xs)
  obtain f' where f: "f = Suc f'" using SliceV.prems(2) by (cases f) auto
  have d: "d < maxNestingDepth" using SliceV.prems(3) by simp
  show ?case
  proof (cases "xs = []")
    case True
    then show ?thesis using scan_value_empty_array [OF d, of f' rest] f by simp
  next
    case False
    have wf: "list_all json_wf xs" using SliceV.prems(1) by simp
    obtain c cs where c: "join '','' (map render xs) = c # cs" "opens_value c"
      using join_render_opens [OF False wf] by blast
    have len: "length (join '','' (map render xs)) + 1 < f'"
      using SliceV.prems(2) f by simp
    have elems: "\<forall>x \<in> set xs. \<forall>f rest. length (render x) < f \<longrightarrow>
        scan_value f (Suc d) (render x @ rest) = JOk x rest"
    proof (intro ballI allI impI)
      fix x g r
      assume x: "x \<in> set xs" and g: "length (render x) < g"
      have "nesting x \<le> foldr max (map nesting xs) 0"
        using x by (rule foldr_max_ge)
      then have "nesting x + Suc d \<le> maxNestingDepth"
        using SliceV.prems(3) by simp
      moreover have "json_wf x" using wf x by (simp add: list_all_iff)
      ultimately show "scan_value g (Suc d) (render x @ r) = JOk x r"
        using SliceV.IH [OF x _ g] by blast
    qed
    have "scan_elements f' (Suc d) [] (join '','' (map render xs) @ CHR '']'' # rest)
        = JOk (SliceV ([] @ xs)) rest"
      using False wf len elems by (rule scan_elements_render)
    then show ?thesis
      using scan_value_array [OF d c(2), of f' "cs @ CHR '']'' # rest"] c(1) f by simp
  qed
next
  case (MapV m)
  obtain f' where f: "f = Suc f'" using MapV.prems(2) by (cases f) auto
  have d: "d < maxNestingDepth" using MapV.prems(3) by simp
  have rd: "render (MapV m) = CHR ''{'' # join '','' (map member m) @ ''}''"
    by (simp add: member_def [abs_def])
  show ?case
  proof (cases "m = []")
    case True
    then show ?thesis using scan_value_empty_object [OF d, of f' rest] f by simp
  next
    case False
    have wf: "list_all (\<lambda>kv. plain (fst kv) \<and> json_wf (snd kv)) m"
      and dist: "distinct (map fst ([] @ m))"
      using MapV.prems(1) by simp_all
    obtain cs where c: "join '','' (map member m) = CHR 0x22 # cs"
      using join_member_opens [OF False] by blast
    have len: "length (join '','' (map member m)) + 1 < f'"
      using MapV.prems(2) f rd by simp
    have elems: "\<forall>kv \<in> set m. \<forall>f rest. length (render (snd kv)) < f \<longrightarrow>
        scan_value f (Suc d) (render (snd kv) @ rest) = JOk (snd kv) rest"
    proof (intro ballI allI impI)
      fix kv g r
      assume kv: "kv \<in> set m" and g: "length (render (snd kv)) < g"
      have "nesting (snd kv) \<le> foldr max (map (\<lambda>kv. nesting (snd kv)) m) 0"
        using kv by (rule foldr_max_ge)
      then have n: "nesting (snd kv) + Suc d \<le> maxNestingDepth"
        using MapV.prems(3) by simp
      have w: "json_wf (snd kv)" using wf kv by (simp add: list_all_iff)
      have "snd kv \<in> Basic_BNFs.snds kv"
        by (cases kv) simp
      then show "scan_value g (Suc d) (render (snd kv) @ r) = JOk (snd kv) r"
        using MapV.IH [OF kv _ w g n] by blast
    qed
    have "scan_members f' (Suc d) [] (join '','' (map member m) @ CHR ''}'' # rest)
        = JOk (MapV ([] @ m)) rest"
      using False dist wf len elems by (rule scan_members_render)
    then show ?thesis
      using scan_value_object [OF d, of f' "cs @ CHR ''}'' # rest"] c f rd by simp
  qed
qed simp_all

lemma json_Unmarshal_render:
  assumes "json_wf v" and "nesting v \<le> maxNestingDepth"
    and "list_all is_space ws1" and "list_all is_space ws2"
  shows "json_Unmarshal (ws1 @ render v @ ws2) = Some (Inr v)"
proof -
  obtain c cs where c: "render v = c # cs" "opens_value c"
    using render_opens [OF assms(1)] by blast
  let ?f = "length (ws1 @ render v @ ws2)"
  have "scan_value (Suc ?f) 0 (ws1 @ render v @ ws2) = scan_value (Suc ?f) 0 (render v @ ws2)"
    using skip_space_ws [OF assms(3), of "render v @ ws2"] by simp
  also have "\<dots> = JOk v ws2"
    using assms(1,2) by (intro scan_value_render) simp_all
  finally have "scan_value (Suc ?f) 0 (ws1 @ render v @ ws2) = JOk v ws2" .
  moreover have "skip_space ws2 = []"
    using skip_space_ws [OF assms(4), of "[]"] by (simp add: skip_space_def)
  ultimately show ?thesis
    by (simp add: json_Unmarshal_def)
qed

section \<open>The test vectors of the repository\<close>

text \<open>
  The cases of \<open>TestConverters\<close>, \<open>TestMakeIntervalToStringConverter\<close> and the tests
  of the factory that the model covers, evaluated in the model. The separators of the
  tests are \<open>@\<close>, the space and \<open>'\<close>.
\<close>

lemma encoderune_separators:
  "encoderune 39 = [CHR 0x27]" "encoderune 64 = ''@''" "encoderune 32 = '' ''"
  "encoderune 0x20AC = [CHR 0xE2, CHR 0x82, CHR 0xAC]"
  by (simp_all add: encoderune_def encoderune3_def rune1Max_def rune2Max_def rune3Max_def
      maxRune_def surrogateMin_def surrogateMax_def char_of_def bit_0)

lemma range_string_euro: "range_string [CHR 0xE2, CHR 0x82, CHR 0xAC] = [0x20AC]"
  by (simp add: decoderune_def continuation_def rune2Max_def surrogateMin_def surrogateMax_def)

lemma range_string_invalid: "range_string [CHR 0x31, CHR 0xE2, CHR 0x32] = [0x31, runeError, 0x32]"
  by (simp add: decoderune_def continuation_def rune2Max_def surrogateMin_def surrogateMax_def)

lemmas eval_defs = StringToUIntConverter_Convert_def StringToIntConverter_Convert_def
  strconv_ParseUint_def strconv_ParseInt_def ParseUint_base10_def replaceCharacters_def
  strings_ReplaceAll_def encoderune_separators digit_value_def lower_def maxUint64_def
  word_le_nat_alt word_less_nat_alt

lemma test_StringToUIntConverter:
  "StringToUIntConverter_Convert [CHR ''@'', CHR '' '', CHR 0x27] ''18446744073709551615''
     = Inr (Uint64V 18446744073709551615)"
  "StringToUIntConverter_Convert [CHR ''@'', CHR '' '', CHR 0x27] ''18446744073709551616''
     = Inl (NumError ''ParseUint'' ''18446744073709551616'' ErrRange)"
  "StringToUIntConverter_Convert [CHR ''@'', CHR '' '', CHR 0x27] ''-101010''
     = Inl (NumError ''ParseUint'' ''-101010'' ErrSyntax)"
  "StringToUIntConverter_Convert [CHR ''@'', CHR '' '', CHR 0x27] ''111`111''
     = Inl (NumError ''ParseUint'' ''111`111'' ErrSyntax)"
  by (simp_all add: eval_defs)

lemma test_StringToIntConverter:
  "StringToIntConverter_Convert [CHR ''@'', CHR '' '', CHR 0x27] ''-9223372036854775808''
     = Inr (Int64V (- 9223372036854775808))"
  "StringToIntConverter_Convert [CHR ''@'', CHR '' '', CHR 0x27] ''9223372036854775807''
     = Inr (Int64V 9223372036854775807)"
  "StringToIntConverter_Convert [CHR ''@'', CHR '' '', CHR 0x27] ''-9223372036854775809''
     = Inl (NumError ''ParseInt'' ''-9223372036854775809'' ErrRange)"
  "StringToIntConverter_Convert [CHR ''@'', CHR '' '', CHR 0x27] ''9223372036854775808''
     = Inl (NumError ''ParseInt'' ''9223372036854775808'' ErrRange)"
  "StringToIntConverter_Convert [CHR ''@'', CHR '' '', CHR 0x27] ''-115 92 28 239''
     = Inr (Int64V (- 1159228239))"
  "StringToIntConverter_Convert [CHR ''@'', CHR '' '', CHR 0x27] ''14,15''
     = Inl (NumError ''ParseInt'' ''14,15'' ErrSyntax)"
  by (simp_all add: eval_defs)


text \<open>
  A separator outside ASCII is deleted as a whole: with the separator U+20AC, whose
  encoding is \<open>E2 82 AC\<close>, a lone byte \<open>E2\<close> of the input stays where it is.
\<close>

lemma test_non_ascii_separator:
  "StringToUIntConverter_Convert [CHR 0xE2, CHR 0x82, CHR 0xAC]
     [CHR 0x31, CHR 0xE2, CHR 0x82, CHR 0xAC, CHR 0x32] = Inr (Uint64V 12)"
  "StringToUIntConverter_Convert [CHR 0xE2, CHR 0x82, CHR 0xAC] [CHR 0x31, CHR 0xE2, CHR 0x32]
     = Inl (NumError ''ParseUint'' [CHR 0x31, CHR 0xE2, CHR 0x32] ErrSyntax)"
  by (simp_all add: eval_defs range_string_euro del: range_string.simps)

lemma test_StringToIntervalConverter:
  "StringToIntervalConverter_Convert ''-11,-1110,0,0,0,0,0,1,2'' =
     Inr (IntervalV \<lparr>Year = - 11, Month = - 1110, Week = 0, Day = 0, Hour = 0, Min = 0, Sec = 0,
            Nsec = 1, Adjust = 2\<rparr>)"
  "StringToIntervalConverter_Convert ''1,2,3'' = Inl ErrUnexpectedIntervalFmt"
  "StringToIntervalConverter_Convert ''1,2,3,4,5,6,7a,8,0'' = Inl ErrUnexpectedIntervalFmt"
  "StringToIntervalConverter_Convert [] = Inl ErrUnexpectedIntervalFmt"
  by (simp_all add: StringToIntervalConverter_Convert_def intervalFieldsNumber_def eval_defs
      NoneAdjust_def ExcessAdjust_def LastAdjust_def)

lemma test_IntervalToStringConverter:
  "IntervalToStringConverter_Convert
     \<lparr>Year = 1234, Month = 11, Week = 22, Day = 33, Hour = 44, Min = 55, Sec = 66, Nsec = 77,
      Adjust = LastAdjust\<rparr> = Inr ''1234,11,22,33,44,55,66,77,2''"
  "IntervalToStringConverter_Convert
     \<lparr>Year = 1414, Month = 0, Week = 0, Day = 0, Hour = 0, Min = 0, Sec = 0, Nsec = 4343904394,
      Adjust = 0\<rparr> = Inr ''1414,0,0,0,0,0,0,4343904394,0''"
  by (simp_all add: IntervalToStringConverter_Convert_def fmt_d_def char_of_def bit_0
      LastAdjust_def)

lemma test_fmt_d_min: "fmt_d (- 9223372036854775808) = ''-9223372036854775808''"
  by (simp add: fmt_d_def char_of_def bit_0)

lemma test_StringToBoolConverter:
  "StringToBoolConverter_Convert ''t'' = Inr (BoolV True)"
  "StringToBoolConverter_Convert ''0'' = Inr (BoolV False)"
  "StringToBoolConverter_Convert ''truth'' = Inl (NumError ''ParseBool'' ''truth'' ErrSyntax)"
  by (simp_all add: StringToBoolConverter_Convert_def strconv_ParseBool_def)

lemma test_json_Unmarshal:
  "json_Unmarshal ''[null, null, null]'' = Some (Inr (SliceV [NilV, NilV, NilV]))"
  "json_Unmarshal ''[pqp][qpq]'' = Some (Inl JsonSyntaxError)"
  "json_Unmarshal ''str'' = Some (Inl JsonSyntaxError)"
  "json_Unmarshal ''{}'' = Some (Inr (MapV []))"
  "json_Unmarshal ''[1, 2, 3, 4]'' = None"
  by (simp_all add: json_Unmarshal_def skip_space_def is_space_def scan_literal_def
      maxNestingDepth_def)

lemma test_nullable_string:
  "StringToTTConvFactory_MakeNullableConverter (WithNullValue MakeStringToTTConvFactory ''null'')
     IdentityConverter_Convert ''null'' = Inr NilV"
  "StringToTTConvFactory_MakeNullableConverter (WithNullValue MakeStringToTTConvFactory ''null'')
     IdentityConverter_Convert [] = Inr (StringV [])"
  by (simp_all add: StringToTTConvFactory_MakeNullableConverter_def WithNullValue_def
      MakeStringToTTConvFactory_def StringToNullConverter_Convert_def IdentityConverter_Convert_def)

lemma test_Mapper_decoding_error:
  "Map (MakeMapper [idealMapper, nonIdealMapper]) [''1'', ''bad''] = Inl (LibError ''some error'')"
  "Map (MakeMapper [idealMapper, nonIdealMapper]) [''1'', ''2''] = Inr [IntV 42, StringV ''2'']"
  by (simp_all add: Map_def validateTuple_def MakeMapper_def idealMapper_def nonIdealMapper_def)

section \<open>Nullable wrapping\<close>

text \<open>
  C1. For every base converter and every configured null value, the nullable converter
  maps the null value to \<open>nil\<close> with no error, whatever the base converter would return
  on it: the null check is the first alternative of the sequence. The null value is the one
  the factory holds, or the one set by \<open>WithNullValue\<close>.
\<close>

theorem nullable_null_first:
  "StringToTTConvFactory_MakeNullableConverter fac C (nullValue fac) = Inr NilV \<and>
   StringToTTConvFactory_MakeNullableConverter (WithNullValue fac v) C v = Inr NilV"
  by (simp add: StringToTTConvFactory_MakeNullableConverter_def StringToNullConverter_Convert_def
      WithNullValue_def)

section \<open>The mapper\<close>

text \<open>
  C2. For a mapper with no default converter, the length check of \<open>Map\<close> fails exactly
  when the tuple is longer than the converter list, and \<open>Map\<close> then returns the
  length-mismatch error; a tuple that is not longer is mapped by the first converters,
  one for each position, and an error it returns is the error of one of these converters.
  With a default converter the length check never fails, and the positions beyond the
  list are mapped by the default converter.
\<close>

theorem mapper_length_law:
  "(defaultConverter m = None \<longrightarrow>
      (validateTuple m tuple = Some TupleLengthError \<longleftrightarrow> length tuple > length (converters m)) \<and>
      (validateTuple m tuple = None \<longleftrightarrow> length tuple \<le> length (converters m)) \<and>
      (length tuple > length (converters m) \<longrightarrow> Map m tuple = Inl TupleLengthError) \<and>
      (length tuple \<le> length (converters m) \<longrightarrow>
         Map m tuple = convert_each (take (length tuple) (converters m)) tuple \<and>
         (\<forall>e. Map m tuple = Inl e \<longrightarrow>
            (\<exists>i. i < length tuple \<and> (converters m ! i) (tuple ! i) = Inl e))))
   \<and> (defaultConverter m = Some d \<longrightarrow>
         validateTuple m tuple = None \<and>
         Map m tuple =
           convert_each (converters m @ replicate (length tuple - length (converters m)) d) tuple)"
proof -
  have a: "Map m tuple = convert_each (take (length tuple) (converters m)) tuple"
    if "defaultConverter m = None" "length tuple \<le> length (converters m)"
    using that Map_loop_convert_each [of 0 tuple m]
    by (simp add: Map_def validateTuple_def)
  have a': "\<exists>i. i < length tuple \<and> (converters m ! i) (tuple ! i) = Inl e"
    if "defaultConverter m = None" "length tuple \<le> length (converters m)" "Map m tuple = Inl e" for e
  proof -
    have "convert_each (take (length tuple) (converters m)) tuple = Inl e"
      using a that by simp
    then obtain i where "i < length tuple" "(take (length tuple) (converters m) ! i) (tuple ! i) = Inl e"
      using convert_each_error by blast
    then show ?thesis by auto
  qed
  have b: "Map m tuple = Inl TupleLengthError"
    if "defaultConverter m = None" "length tuple > length (converters m)"
    using that by (simp add: Map_def validateTuple_def)
  have c: "Map m tuple =
      convert_each (converters m @ replicate (length tuple - length (converters m)) d) tuple"
    if "defaultConverter m = Some d"
    using that Map_loop_default [OF that, where i = 0 and tuple = tuple
        and k = "length tuple - length (converters m)"]
    by (simp add: Map_def validateTuple_def)
  show ?thesis
    using a a' b c by (auto simp: validateTuple_def)
qed

theorem mapper_length_law_witness:
  "defaultConverter (MakeMapper [idealMapper, nonIdealMapper]) = None \<and>
   length [''1'', ''2'', ''3'', ''4''] > length (converters (MakeMapper [idealMapper, nonIdealMapper])) \<and>
   Map (MakeMapper [idealMapper, nonIdealMapper]) [''1'', ''2'', ''3'', ''4''] = Inl TupleLengthError \<and>
   length [''1''] \<le> length (converters (MakeMapper [idealMapper, nonIdealMapper])) \<and>
   Map (MakeMapper [idealMapper, nonIdealMapper]) [''1''] = Inr [IntV 42] \<and>
   defaultConverter (WithDefaultConverter (MakeMapper [idealMapper, nonIdealMapper]) nullMapper)
     = Some nullMapper \<and>
   Map (WithDefaultConverter (MakeMapper [idealMapper, nonIdealMapper]) nullMapper)
       [''1'', ''2'', ''3'', ''4'', ''null'']
     = Inr [IntV 42, StringV ''2'', StringV ''3'', StringV ''4'', NilV]"
proof -
  let ?m = "MakeMapper [idealMapper, nonIdealMapper]"
  have h1: "defaultConverter ?m = None" and c1: "converters ?m = [idealMapper, nonIdealMapper]"
    by (simp_all add: MakeMapper_def)
  have h2: "defaultConverter (WithDefaultConverter ?m nullMapper) = Some nullMapper"
    and c2: "converters (WithDefaultConverter ?m nullMapper) = [idealMapper, nonIdealMapper]"
    by (simp_all add: MakeMapper_def WithDefaultConverter_def)
  have t1: "Map ?m [''1'', ''2'', ''3'', ''4''] = Inl TupleLengthError"
    using mapper_length_law [of ?m "[''1'', ''2'', ''3'', ''4'']"] h1 c1 by simp
  have t2: "Map ?m [''1''] = Inr [IntV 42]"
    using mapper_length_law [of ?m "[''1'']"] h1 c1 by (simp add: idealMapper_def)
  have t3: "Map (WithDefaultConverter ?m nullMapper) [''1'', ''2'', ''3'', ''4'', ''null'']
     = Inr [IntV 42, StringV ''2'', StringV ''3'', StringV ''4'', NilV]"
    using mapper_length_law [of "WithDefaultConverter ?m nullMapper"
        "[''1'', ''2'', ''3'', ''4'', ''null'']" nullMapper] h2 c2
    by (simp add: idealMapper_def nonIdealMapper_def nullMapper_def numeral_3_eq_3)
  show ?thesis
    using h1 h2 c1 t1 t2 t3 by simp
qed

section \<open>The datetime converter\<close>



section \<open>The interval converter\<close>

text \<open>
  C4. The interval converter succeeds exactly on the inputs that split on commas into nine
  parts, each a valid base-10 signed 64-bit integer, the ninth being 0, 1 or 2; it then
  returns the interval whose fields are these numbers in the order year, month, week, day,
  hour, min, sec, nanosecond, adjust, and on every other input it returns the
  interval-format error. \<open>1,2,3,4,5,6,7,8,1\<close> gives that interval and
  \<open>1,2,3,4,5,6,7,8,3\<close> fails.
\<close>

theorem interval_converter_exact:
  "StringToIntervalConverter_Convert src =
     (if interval_accepts src
      then Inr (IntervalV (interval_of_parts (strings_Split src CHR '','')))
      else Inl ErrUnexpectedIntervalFmt)
   \<and> StringToIntervalConverter_Convert ''1,2,3,4,5,6,7,8,1'' =
       Inr (IntervalV \<lparr>Year = 1, Month = 2, Week = 3, Day = 4, Hour = 5, Min = 6, Sec = 7,
              Nsec = 8, Adjust = 1\<rparr>)
   \<and> StringToIntervalConverter_Convert ''1,2,3,4,5,6,7,8,3'' = Inl ErrUnexpectedIntervalFmt"
proof -
  have gen: "StringToIntervalConverter_Convert src =
     (if interval_accepts src
      then Inr (IntervalV (interval_of_parts (strings_Split src CHR '','')))
      else Inl ErrUnexpectedIntervalFmt)"
  proof (cases "length (strings_Split src CHR '','') = 9 \<and>
      list_all valid_int64 (strings_Split src CHR '','')")
    case True
    then show ?thesis
      using Convert_valid [OF _ _ refl, of src]
      by (simp add: interval_accepts_def Let_def)
  next
    case False
    then show ?thesis
      using Convert_invalid [OF False refl]
      by (auto simp: interval_accepts_def Let_def)
  qed
  have ex1: "StringToIntervalConverter_Convert ''1,2,3,4,5,6,7,8,1'' =
       Inr (IntervalV \<lparr>Year = 1, Month = 2, Week = 3, Day = 4, Hour = 5, Min = 6, Sec = 7,
              Nsec = 8, Adjust = 1\<rparr>)"
    by (simp add: StringToIntervalConverter_Convert_def intervalFieldsNumber_def
        strconv_ParseInt_def ParseUint_base10_def digit_value_def maxUint64_def
        word_le_nat_alt word_less_nat_alt NoneAdjust_def ExcessAdjust_def LastAdjust_def)
  have ex2: "StringToIntervalConverter_Convert ''1,2,3,4,5,6,7,8,3'' = Inl ErrUnexpectedIntervalFmt"
    by (simp add: StringToIntervalConverter_Convert_def intervalFieldsNumber_def
        strconv_ParseInt_def ParseUint_base10_def digit_value_def maxUint64_def
        word_le_nat_alt word_less_nat_alt NoneAdjust_def ExcessAdjust_def LastAdjust_def)
  show ?thesis
    using gen ex1 ex2 by simp
qed

section \<open>The round trip of intervals\<close>

text \<open>
  C5. For every interval whose adjust mode is one of the three codes, the interval-to-string
  converter returns a string with no error, and the interval converter maps that string back
  to the same interval with no error.
\<close>

theorem interval_round_trip:
  assumes "Adjust x = NoneAdjust \<or> Adjust x = ExcessAdjust \<or> Adjust x = LastAdjust"
  shows "\<exists>s. IntervalToStringConverter_Convert x = Inr s \<and>
             StringToIntervalConverter_Convert s = Inr (IntervalV x)"
proof -
  obtain s where s: "IntervalToStringConverter_Convert x = Inr s"
    by (simp add: IntervalToStringConverter_Convert_def)
  show ?thesis
    using s Convert_interval_string(2) [OF s] assms by auto
qed

theorem interval_round_trip_witness:
  "\<exists>s. IntervalToStringConverter_Convert
         \<lparr>Year = 1234, Month = 11, Week = 22, Day = 33, Hour = 44, Min = 55, Sec = 66,
          Nsec = - 77, Adjust = LastAdjust\<rparr> = Inr s \<and>
       StringToIntervalConverter_Convert s =
         Inr (IntervalV \<lparr>Year = 1234, Month = 11, Week = 22, Day = 33, Hour = 44, Min = 55,
                Sec = 66, Nsec = - 77, Adjust = LastAdjust\<rparr>)"
  using interval_round_trip [of "\<lparr>Year = 1234, Month = 11, Week = 22, Day = 33, Hour = 44,
    Min = 55, Sec = 66, Nsec = - 77, Adjust = LastAdjust\<rparr>"]
  by simp

section \<open>The converters for any and scalar\<close>

text \<open>
  C6. For every input string, whatever the parsers of the other packages return, the
  converters the default factory builds for \<open>any\<close> and for \<open>scalar\<close> return a value
  and no error: the identity converter is the last alternative of their sequence.
\<close>

theorem any_scalar_never_fail:
  "(\<exists>v. StringToTTConvFactory_GetAnyConverter E fac src = Inr v) \<and>
   (\<exists>v. StringToTTConvFactory_GetScalarConverter E fac src = Inr v)"
proof -
  have id: "IdentityConverter_Convert src = Inr (StringV src)"
    by (simp add: IdentityConverter_Convert_def)
  have "\<exists>v. StringToTTConvFactory_GetAnyConverter E fac src = Inr v"
    unfolding StringToTTConvFactory_GetAnyConverter_def
    by (rule MakeSequenceConverter_succeeds [where conv = IdentityConverter_Convert, OF _ id]) simp
  moreover have "\<exists>v. StringToTTConvFactory_GetScalarConverter E fac src = Inr v"
    unfolding StringToTTConvFactory_GetScalarConverter_def
    by (rule MakeSequenceConverter_succeeds [where conv = IdentityConverter_Convert, OF _ id]) simp
  ultimately show ?thesis by simp
qed

section \<open>The array and map converters\<close>

text \<open>
  C7, as the specification states it, fails: \<open>null\<close> is a JSON document that decodes to
  \<open>nil\<close>, neither a sequence nor a mapping, and both converters return it with no
  error; the array converter returns the empty object of \<open>{}\<close> and the map converter
  the empty array of \<open>[]\<close>.
\<close>

theorem json_shape_counterexample:
  "json_Unmarshal ''null'' = Some (Inr NilV) \<and> \<not> is_sequence NilV \<and>
   \<not> is_string_keyed_mapping NilV \<and>
   StringToSliceConverter_Convert ''null'' = Some (Inr NilV) \<and>
   StringToMapConverter_Convert ''null'' = Some (Inr NilV) \<and>
   \<not> is_sequence (MapV []) \<and> StringToSliceConverter_Convert ''{}'' = Some (Inr (MapV [])) \<and>
   \<not> is_string_keyed_mapping (SliceV []) \<and>
   StringToMapConverter_Convert ''[]'' = Some (Inr (SliceV []))"
  by (simp add: StringToSliceConverter_Convert_def StringToMapConverter_Convert_def
      json_Unmarshal_def skip_space_def is_space_def scan_literal_def maxNestingDepth_def)

text \<open>
  C7, amended. Neither converter looks at the shape of the decoded value. For every value
  \<open>v\<close> made of \<open>null\<close>, booleans, strings, arrays and objects (\<open>json_wf\<close>), nested
  to at most 10000 levels, both converters return \<open>v\<close> with no error on the JSON text
  of \<open>v\<close>, with or without white space around it, whatever the top-level shape of
  \<open>v\<close>; and on every input both return what \<open>json.Unmarshal\<close> returns.
\<close>

theorem json_converters_any_shape:
  "(json_wf v \<and> nesting v \<le> maxNestingDepth \<and> list_all is_space ws1 \<and> list_all is_space ws2 \<longrightarrow>
      StringToSliceConverter_Convert (ws1 @ render v @ ws2) = Some (Inr v) \<and>
      StringToMapConverter_Convert (ws1 @ render v @ ws2) = Some (Inr v))
   \<and> StringToSliceConverter_Convert src = json_Unmarshal src
   \<and> StringToMapConverter_Convert src = json_Unmarshal src"
proof -
  have same: "StringToSliceConverter_Convert s = json_Unmarshal s"
    "StringToMapConverter_Convert s = json_Unmarshal s" for s
    by (simp_all add: StringToSliceConverter_Convert_def StringToMapConverter_Convert_def
        split: option.splits sum.splits)
  show ?thesis
    using json_Unmarshal_render [of v ws1 ws2] by (simp add: same)
qed

theorem json_converters_any_shape_witness:
  "json_wf (MapV [(''a'', SliceV [NilV, BoolV True])]) \<and>
   nesting (MapV [(''a'', SliceV [NilV, BoolV True])]) \<le> maxNestingDepth \<and>
   list_all is_space '' '' \<and> list_all is_space [CHR 0x0A] \<and>
   \<not> is_sequence (MapV [(''a'', SliceV [NilV, BoolV True])]) \<and>
   StringToSliceConverter_Convert
     ('' '' @ render (MapV [(''a'', SliceV [NilV, BoolV True])]) @ [CHR 0x0A])
     = Some (Inr (MapV [(''a'', SliceV [NilV, BoolV True])])) \<and>
   StringToMapConverter_Convert
     ('' '' @ render (MapV [(''a'', SliceV [NilV, BoolV True])]) @ [CHR 0x0A])
     = Some (Inr (MapV [(''a'', SliceV [NilV, BoolV True])]))"
proof -
  have h: "json_wf (MapV [(''a'', SliceV [NilV, BoolV True])]) \<and>
      nesting (MapV [(''a'', SliceV [NilV, BoolV True])]) \<le> maxNestingDepth \<and>
      list_all is_space '' '' \<and> list_all is_space [CHR 0x0A]"
    by (simp add: plain_def maxNestingDepth_def is_space_def)
  have s: "\<not> is_sequence (MapV [(''a'', SliceV [NilV, BoolV True])])"
    by simp
  show ?thesis
    using h s json_converters_any_shape [of "MapV [(''a'', SliceV [NilV, BoolV True])]" "'' ''"
        "[CHR 0x0A]"]
    by blast
qed

section \<open>The assembler\<close>

text \<open>
  C8. For every factory and every space format: when every field has a type name of the
  enumerated set, the assembler returns a converter list as long as the format; a field
  whose type name is outside the set, after fields whose type names are inside, makes the
  result the unexpected-type error of that field, whatever fields follow it; and a format
  with some type name outside the set always has such a first field.
\<close>

theorem assembler_length_or_first_error:
  "(list_all known_type spaceFmt \<longrightarrow>
      (\<exists>convs. MakeTypeToTTConverters fac spaceFmt = Inr convs \<and>
               length convs = length spaceFmt))
   \<and> (list_all known_type pre \<and> \<not> known_type bad \<longrightarrow>
        MakeTypeToTTConverters fac (pre @ bad # rest) = Inl (UnexpectedType (Type bad)))
   \<and> (\<not> list_all known_type spaceFmt \<longrightarrow>
        (\<exists>pre bad rest. spaceFmt = pre @ bad # rest \<and> list_all known_type pre \<and>
           \<not> known_type bad \<and>
           MakeTypeToTTConverters fac spaceFmt = Inl (UnexpectedType (Type bad))))"
proof -
  have third: "\<exists>pre bad rest. spaceFmt = pre @ bad # rest \<and> list_all known_type pre \<and>
           \<not> known_type bad \<and>
           MakeTypeToTTConverters fac spaceFmt = Inl (UnexpectedType (Type bad))"
    if "\<not> list_all known_type spaceFmt"
  proof -
    from that obtain pre bad rest where
      sp: "spaceFmt = pre @ bad # rest" "\<not> known_type bad" "\<forall>x \<in> set pre. known_type x"
      using split_list_first_prop [of spaceFmt "\<lambda>f. \<not> known_type f"]
      by (auto simp: list_all_iff)
    then have "list_all known_type pre" by (simp add: list_all_iff)
    then show ?thesis
      using sp MakeTypeToTTConverters_fail_fast [of pre bad fac rest] by blast
  qed
  show ?thesis
    using MakeTypeToTTConverters_known [of spaceFmt fac]
      MakeTypeToTTConverters_fail_fast [of pre bad fac rest] third
    by blast
qed

theorem assembler_length_or_first_error_witness:
  "list_all known_type
     [\<lparr>Id = 0, Name = [], Type = ''integer'', IsNullable = False\<rparr>,
      \<lparr>Id = 0, Name = [], Type = ''map'', IsNullable = True\<rparr>] \<and>
   (\<exists>convs. MakeTypeToTTConverters MockTypeToTTConvFactory
       [\<lparr>Id = 0, Name = [], Type = ''integer'', IsNullable = False\<rparr>,
        \<lparr>Id = 0, Name = [], Type = ''map'', IsNullable = True\<rparr>] = Inr convs \<and>
      length convs = 2) \<and>
   \<not> known_type \<lparr>Id = 0, Name = [], Type = ''fake'', IsNullable = True\<rparr> \<and>
   MakeTypeToTTConverters MockTypeToTTConvFactory
     [\<lparr>Id = 0, Name = [], Type = ''integer'', IsNullable = False\<rparr>,
      \<lparr>Id = 0, Name = [], Type = ''map'', IsNullable = True\<rparr>,
      \<lparr>Id = 0, Name = [], Type = ''fake'', IsNullable = True\<rparr>,
      \<lparr>Id = 0, Name = [], Type = ''string'', IsNullable = False\<rparr>]
     = Inl (UnexpectedType ''fake'')"
proof -
  let ?pre = "[\<lparr>Id = 0, Name = [], Type = ''integer'', IsNullable = False\<rparr>,
      \<lparr>Id = 0, Name = [], Type = ''map'', IsNullable = True\<rparr>]"
  let ?bad = "\<lparr>Id = 0, Name = [], Type = ''fake'', IsNullable = True\<rparr>"
  let ?rest = "[\<lparr>Id = 0, Name = [], Type = ''string'', IsNullable = False\<rparr>]"
  have k: "list_all known_type ?pre" and nk: "\<not> known_type ?bad"
    by (simp_all add: known_type_def TypeNames_def TypeName_defs)
  have len: "length ?pre = 2"
    by simp
  have "\<exists>convs. MakeTypeToTTConverters MockTypeToTTConvFactory ?pre = Inr convs \<and>
      length convs = length ?pre"
    using k assembler_length_or_first_error [of ?pre MockTypeToTTConvFactory] by blast
  then have e1: "\<exists>convs. MakeTypeToTTConverters MockTypeToTTConvFactory ?pre = Inr convs \<and>
      length convs = 2"
    unfolding len .
  have "MakeTypeToTTConverters MockTypeToTTConvFactory (?pre @ ?bad # ?rest)
      = Inl (UnexpectedType (Type ?bad))"
    using k nk assembler_length_or_first_error [of _ MockTypeToTTConvFactory ?pre ?bad ?rest]
    by blast
  then have e2: "MakeTypeToTTConverters MockTypeToTTConvFactory
     [\<lparr>Id = 0, Name = [], Type = ''integer'', IsNullable = False\<rparr>,
      \<lparr>Id = 0, Name = [], Type = ''map'', IsNullable = True\<rparr>,
      \<lparr>Id = 0, Name = [], Type = ''fake'', IsNullable = True\<rparr>,
      \<lparr>Id = 0, Name = [], Type = ''string'', IsNullable = False\<rparr>]
     = Inl (UnexpectedType ''fake'')"
    by (simp del: MakeTypeToTTConverters.simps)
  show ?thesis
    using k nk e1 e2 by blast
qed

section \<open>Thousand separators\<close>

text \<open>
  C9. For every configured thousand separator \<open>c\<close> (a rune of the separator string) and
  every string \<open>n\<close> of ASCII bytes, hence every numeral, the unsigned converter gives
  the same result on \<open>n\<close> with occurrences of \<open>c\<close> inserted as on \<open>n\<close> itself, and
  when no byte of \<open>n\<close> is a configured separator that result is the one of
  \<open>strconv.ParseUint\<close> on \<open>n\<close>. With the separator \<open>'\<close> the converter maps
  \<open>111'111'111'111\<close> to 111111111111.
\<close>

theorem thousand_separators_ignored:
  "(c \<in> set (range_string seps) \<and> list_all is_ascii n \<and> inserted (encoderune c) n s \<longrightarrow>
      StringToUIntConverter_Convert seps s = StringToUIntConverter_Convert seps n \<and>
      (list_all (\<lambda>b. (of_char b :: nat) \<notin> set (range_string seps)) n \<longrightarrow>
         StringToUIntConverter_Convert seps s =
           (case strconv_ParseUint n of Inl err \<Rightarrow> Inl err | Inr u \<Rightarrow> Inr (Uint64V u))))
   \<and> StringToUIntConverter_Convert [CHR 0x27] ''111'111'111'111'' = Inr (Uint64V 111111111111)"
proof -
  have ex: "StringToUIntConverter_Convert [CHR 0x27] ''111'111'111'111'' = Inr (Uint64V 111111111111)"
    by (simp add: StringToUIntConverter_Convert_def strconv_ParseUint_def ParseUint_base10_def
        replaceCharacters_def strings_ReplaceAll_def encoderune_separators digit_value_def
        maxUint64_def word_le_nat_alt word_less_nat_alt)
  have gen: "StringToUIntConverter_Convert seps s = StringToUIntConverter_Convert seps n"
    if "c \<in> set (range_string seps)" "list_all is_ascii n" "inserted (encoderune c) n s"
    using replaceCharacters_inserted [OF that]
    by (simp add: StringToUIntConverter_Convert_def)
  have plain: "StringToUIntConverter_Convert seps n =
      (case strconv_ParseUint n of Inl err \<Rightarrow> Inl err | Inr u \<Rightarrow> Inr (Uint64V u))"
    if "list_all is_ascii n" "list_all (\<lambda>b. (of_char b :: nat) \<notin> set (range_string seps)) n"
  proof -
    have "filter (\<lambda>b. (of_char b :: nat) \<notin> set (range_string seps)) n = n"
      using that(2) by (auto simp: filter_id_conv list_all_iff)
    then show ?thesis
      using replaceCharacters_ascii [OF that(1), of seps]
      by (simp add: StringToUIntConverter_Convert_def)
  qed
  show ?thesis
    using ex gen plain by simp
qed

theorem thousand_separators_ignored_witness:
  "39 \<in> set (range_string [CHR 0x27]) \<and> list_all is_ascii ''111111111111'' \<and>
   inserted (encoderune 39) ''111111111111'' ''111'111'111'111'' \<and>
   list_all (\<lambda>b. (of_char b :: nat) \<notin> set (range_string [CHR 0x27])) ''111111111111'' \<and>
   StringToUIntConverter_Convert [CHR 0x27] ''111'111'111'111''
     = StringToUIntConverter_Convert [CHR 0x27] ''111111111111'' \<and>
   StringToUIntConverter_Convert [CHR 0x27] ''111'111'111'111''
     = (case strconv_ParseUint ''111111111111'' of Inl err \<Rightarrow> Inl err | Inr u \<Rightarrow> Inr (Uint64V u))"
proof -
  have h: "39 \<in> set (range_string [CHR 0x27]) \<and> list_all is_ascii ''111111111111'' \<and>
      inserted (encoderune 39) ''111111111111'' ''111'111'111'111''"
    by (simp add: is_ascii_def encoderune_separators)
  have d: "list_all (\<lambda>b. (of_char b :: nat) \<notin> set (range_string [CHR 0x27])) ''111111111111''"
    by simp
  show ?thesis
    using h d thousand_separators_ignored [of 39 "[CHR 0x27]" "''111111111111''"
        "''111'111'111'111''"]
    by blast
qed

section \<open>Intervals outside the accepted adjust modes\<close>

text \<open>
  C10. The interval-to-string converter returns no error on any interval; its result always
  splits on commas into nine parts; and when the adjust mode is none of the three codes,
  the interval converter rejects that result.
\<close>

theorem interval_to_string_total:
  "\<exists>s. IntervalToStringConverter_Convert x = Inr s \<and>
       length (strings_Split s CHR '','') = 9 \<and>
       (Adjust x \<notin> {NoneAdjust, ExcessAdjust, LastAdjust} \<longrightarrow>
          StringToIntervalConverter_Convert s = Inl ErrUnexpectedIntervalFmt)"
proof -
  obtain s where s: "IntervalToStringConverter_Convert x = Inr s"
    by (simp add: IntervalToStringConverter_Convert_def)
  have "length (strings_Split s CHR '','') = 9"
    using Convert_interval_string(1) [OF s] by (simp add: interval_fields_def)
  then show ?thesis
    using s Convert_interval_string(2) [OF s] by auto
qed

theorem interval_to_string_total_witness:
  "(3 :: int64) \<notin> {NoneAdjust, ExcessAdjust, LastAdjust} \<and>
   (\<exists>s. IntervalToStringConverter_Convert
         \<lparr>Year = 1, Month = 2, Week = 3, Day = 4, Hour = 5, Min = 6, Sec = 7, Nsec = 8,
          Adjust = 3\<rparr> = Inr s \<and>
       length (strings_Split s CHR '','') = 9 \<and>
       StringToIntervalConverter_Convert s = Inl ErrUnexpectedIntervalFmt)"
proof -
  have h: "(3 :: int64) \<notin> {NoneAdjust, ExcessAdjust, LastAdjust}"
    by (simp add: NoneAdjust_def ExcessAdjust_def LastAdjust_def)
  show ?thesis
    using h interval_to_string_total [of "\<lparr>Year = 1, Month = 2, Week = 3, Day = 4, Hour = 5,
      Min = 6, Sec = 7, Nsec = 8, Adjust = 3\<rparr>"]
    by simp
qed

end
